theory Spec2Isabelle
  imports Main "HOL-Library.Sublist"
begin

section \<open>Python strings\<close>

text \<open>
  A Python \<open>str\<close> is a sequence of Unicode code points. The program works on Chinese
  text, so a string is modelled as the list of its code points (a \<open>char\<close> of HOL is
  one byte only). ASCII literals are written through \<open>ascii\<close>.
\<close>

type_synonym ustring = "nat list"

definition ascii :: "string \<Rightarrow> ustring" where
  "ascii s = map of_char s"

text \<open>The line terminator \<open>\n\<close>, the tab and the space.\<close>

abbreviation NL :: nat where "NL \<equiv> 10"
abbreviation TAB :: nat where "TAB \<equiv> 9"
abbreviation SPC :: nat where "SPC \<equiv> 32"

text \<open>
  \<open>str.isspace\<close> of one code point: the characters \<open>str.strip()\<close> removes when it is
  called without argument (CPython's \<open>_PyUnicode_IsWhitespace\<close>).
\<close>

definition is_space :: "nat \<Rightarrow> bool" where
  "is_space c \<longleftrightarrow>
     (9 \<le> c \<and> c \<le> 13) \<or> (28 \<le> c \<and> c \<le> 32) \<or> c = 133 \<or> c = 160 \<or> c = 5760 \<or>
     (8192 \<le> c \<and> c \<le> 8202) \<or> c = 8232 \<or> c = 8233 \<or> c = 8239 \<or> c = 8287 \<or>
     c = 12288"

text \<open>\<open>s.strip()\<close>: leading, then trailing whitespace is removed.\<close>

definition py_strip :: "ustring \<Rightarrow> ustring" where
  "py_strip s = rev (dropWhile is_space (rev (dropWhile is_space s)))"

text \<open>
  \<open>s.replace(old, new)\<close> for a non-empty \<open>old\<close>: one pass from the left, the
  occurrences replaced do not overlap, and the text put in is not scanned again.
  (For an empty \<open>old\<close> Python inserts \<open>new\<close> around every character; the program
  never does that, and the model returns the string as it is.)
\<close>

function py_replace :: "ustring \<Rightarrow> ustring \<Rightarrow> ustring \<Rightarrow> ustring" where
  "py_replace old new [] = []"
| "py_replace old new (c # cs) =
     (if old \<noteq> [] \<and> prefix old (c # cs)
      then new @ py_replace old new (drop (length old) (c # cs))
      else c # py_replace old new cs)"
  by pat_completeness auto
termination
  by (relation "measure (\<lambda>(old, new, s). length s)") (auto simp: neq_Nil_conv)

text \<open>\<open>pat in s\<close>: the pattern occurs in the string as a contiguous piece.\<close>

fun contains_sub :: "ustring \<Rightarrow> ustring \<Rightarrow> bool" where
  "contains_sub pat [] = (pat = [])"
| "contains_sub pat (c # cs) = (prefix pat (c # cs) \<or> contains_sub pat cs)"

section \<open>\<open>read_word_doc\<close>: the document normaliser\<close>

text \<open>
  \<open>page_num_re = re.compile(r'\<dots>')\<close> with the pattern U+7B2C, then one or more of the ten
  numerals U+4E00 U+4E8C U+4E09 U+56DB U+4E94 U+516D U+4E03 U+516B U+4E5D U+5341, then
  U+6761; \<open>page_num_re.match(text)\<close> anchors it at the start of the text. The numeral
  class is greedy, and backtracking cannot help (a numeral is never U+6761), so the
  pattern matches exactly when the longest run of numerals after the first character is
  non-empty and is followed by U+6761.
\<close>

definition is_cn_numeral :: "nat \<Rightarrow> bool" where
  "is_cn_numeral c \<longleftrightarrow>
     c \<in> set [19968, 20108, 19977, 22235, 20116, 20845, 19971, 20843, 20061, 21313]"

definition page_num_match :: "ustring \<Rightarrow> bool" where
  "page_num_match text =
     (case text of
        [] \<Rightarrow> False
      | c # cs \<Rightarrow>
          c = 31532 \<and> takeWhile is_cn_numeral cs \<noteq> [] \<and>
          (case dropWhile is_cn_numeral cs of [] \<Rightarrow> False | d # _ \<Rightarrow> d = 26465))"

text \<open>\<open>dots_re = re.compile(r'\.{4,}')\<close>; \<open>dots_re.search(text)\<close> finds four dots in a row.\<close>

definition dots_search :: "ustring \<Rightarrow> bool" where
  "dots_search text = contains_sub [46, 46, 46, 46] text"

text \<open>
  The loop over \<open>doc.paragraphs\<close>, with the list \<open>full_text\<close> as its state. Python's
  \<open>full_text and full_text[-1] == '\n'\<close> reads the last element only when the list is
  not empty.
\<close>

fun read_word_doc_loop :: "ustring list \<Rightarrow> ustring list \<Rightarrow> ustring list" where
  "read_word_doc_loop full_text [] = full_text"
| "read_word_doc_loop full_text (para # paras) =
     (let text = py_strip para in
      if page_num_match text \<or> dots_search text then read_word_doc_loop full_text paras
      else if text = [] \<and> full_text \<noteq> [] \<and> last full_text = [NL]
           then read_word_doc_loop full_text paras
      else read_word_doc_loop (full_text @ [py_replace [TAB] [SPC] text @ [NL]]) paras)"

text \<open>
  The exceptions the program can meet, all of them subclasses of \<open>Exception\<close>. A
  \<open>KeyError\<close> carries the missing key, the others their message; \<open>RequestException\<close>
  stands for what the \<open>requests\<close> library raises (connection errors, timeouts, the
  \<open>HTTPError\<close> of \<open>raise_for_status\<close>, a body that is not JSON) and \<open>OSError\<close> for a
  file that cannot be opened.
\<close>

datatype error =
    KeyError ustring
  | TypeError ustring
  | ValueError ustring
  | AttributeError ustring
  | JSONDecodeError ustring
  | RequestException ustring
  | OSError ustring

text \<open>
  \<open>read_word_doc(doc_path)\<close>. What \<open>Document(doc_path)\<close> gives is the input: the
  paragraph texts of the document, or the exception raised on opening it. Every
  exception is caught and turned into \<open>None\<close>.
\<close>

definition read_word_doc :: "error + ustring list \<Rightarrow> ustring option" where
  "read_word_doc doc =
     (case doc of
        Inl e \<Rightarrow> None
      | Inr paragraphs \<Rightarrow>
          Some (py_replace [NL, NL] [NL] (concat (read_word_doc_loop [] paragraphs))))"

section \<open>Python values\<close>

text \<open>
  The values that flow through the program: spreadsheet cells, decoded JSON and the
  cells of the result table. A float is given by its \<open>repr\<close>; \<open>PObject\<close> is an object
  of any other class (a pandas \<open>Timestamp\<close>, a numpy \<open>int64\<close>), given by the name of its
  class. A \<open>dict\<close> keeps its insertion order and has string keys.
\<close>

datatype pyval =
    PNone
  | PBool bool
  | PInt int
  | PFloat ustring
  | PStr ustring
  | PList "pyval list"
  | PDict "(ustring \<times> pyval) list"
  | PObject ustring

fun type_name :: "pyval \<Rightarrow> ustring" where
  "type_name PNone = ascii ''NoneType''"
| "type_name (PBool b) = ascii ''bool''"
| "type_name (PInt i) = ascii ''int''"
| "type_name (PFloat r) = ascii ''float''"
| "type_name (PStr s) = ascii ''str''"
| "type_name (PList xs) = ascii ''list''"
| "type_name (PDict kvs) = ascii ''dict''"
| "type_name (PObject t) = t"

text \<open>\<open>isinstance(v, str)\<close>.\<close>

definition is_str :: "pyval \<Rightarrow> bool" where
  "is_str v = (case v of PStr s \<Rightarrow> True | _ \<Rightarrow> False)"

text \<open>
  \<open>str(e)\<close>. The description of a \<open>KeyError\<close> is the \<open>repr\<close> of its key; every key the
  program looks up is a literal without quotes, backslashes or unprintable characters,
  whose \<open>repr\<close> is the key between single quotes.
\<close>

fun describe :: "error \<Rightarrow> ustring" where
  "describe (KeyError k) = [39] @ k @ [39]"
| "describe (TypeError m) = m"
| "describe (ValueError m) = m"
| "describe (AttributeError m) = m"
| "describe (JSONDecodeError m) = m"
| "describe (RequestException m) = m"
| "describe (OSError m) = m"

text \<open>
  \<open>d[key]\<close> on a \<open>dict\<close> (and \<open>row[key]\<close> on a pandas row, whose labels are the column
  names, made unique by \<open>read_excel\<close>): the value, or \<open>KeyError\<close>.
\<close>

definition dict_getitem :: "(ustring \<times> pyval) list \<Rightarrow> ustring \<Rightarrow> error + pyval" where
  "dict_getitem kvs key =
     (case map_of kvs key of None \<Rightarrow> Inl (KeyError key) | Some v \<Rightarrow> Inr v)"

text \<open>\<open>obj[key]\<close> with a string key, on any value (messages of CPython 3.11).\<close>

fun py_getitem :: "pyval \<Rightarrow> ustring \<Rightarrow> error + pyval" where
  "py_getitem (PDict kvs) key = dict_getitem kvs key"
| "py_getitem (PList xs) key =
     Inl (TypeError (ascii ''list indices must be integers or slices, not str''))"
| "py_getitem (PStr s) key =
     Inl (TypeError (ascii ''string indices must be integers, not '' @ [39] @ ascii ''str'' @ [39]))"
| "py_getitem v key =
     Inl (TypeError ([39] @ type_name v @ [39] @ ascii '' object is not subscriptable''))"

text \<open>\<open>obj.get(key, default)\<close>: only a \<open>dict\<close> has the method.\<close>

fun py_get :: "pyval \<Rightarrow> ustring \<Rightarrow> pyval \<Rightarrow> error + pyval" where
  "py_get (PDict kvs) key dflt = Inr (case map_of kvs key of None \<Rightarrow> dflt | Some v \<Rightarrow> v)"
| "py_get v key dflt =
     Inl (AttributeError ([39] @ type_name v @ [39] @ ascii '' object has no attribute ''
                          @ [39] @ ascii ''get'' @ [39]))"

section \<open>\<open>json.dumps(obj, ensure_ascii=False, indent=2)\<close>\<close>

text \<open>
  The encoder of the standard library, as \<open>json.encoder\<close> writes it. With
  \<open>ensure_ascii=False\<close> a string is put between double quotes and only the double quote,
  the backslash and the control characters below U+0020 are escaped; every other code
  point, ASCII or not, is kept as it is.
\<close>

definition hex_digit :: "nat \<Rightarrow> nat" where
  "hex_digit d = (if d < 10 then 48 + d else 87 + d)"

definition escape_char :: "nat \<Rightarrow> ustring" where
  "escape_char c =
     (if c = 34 then [92, 34]
      else if c = 92 then [92, 92]
      else if c = 10 then [92, 110]
      else if c = 13 then [92, 114]
      else if c = 9 then [92, 116]
      else if c = 8 then [92, 98]
      else if c = 12 then [92, 102]
      else if c < 32 then [92, 117, 48, 48, hex_digit (c div 16), hex_digit (c mod 16)]
      else [c])"

definition py_encode_basestring :: "ustring \<Rightarrow> ustring" where
  "py_encode_basestring s = [34] @ concat (map escape_char s) @ [34]"

text \<open>\<open>int.__repr__\<close>: decimal digits, with a minus sign for a negative number.\<close>

function show_nat :: "nat \<Rightarrow> ustring" where
  "show_nat n = (if n < 10 then [48 + n] else show_nat (n div 10) @ [48 + n mod 10])"
  by pat_completeness auto
termination
  by (relation "measure id") auto

definition show_int :: "int \<Rightarrow> ustring" where
  "show_int i = (if i < 0 then 45 # show_nat (nat (- i)) else show_nat (nat i))"

text \<open>\<open>floatstr\<close>: the \<open>repr\<close> of the float, but for the three values JSON lacks.\<close>

definition floatstr :: "ustring \<Rightarrow> ustring" where
  "floatstr r =
     (if r = ascii ''nan'' then ascii ''NaN''
      else if r = ascii ''inf'' then ascii ''Infinity''
      else if r = ascii ''-inf'' then ascii ''-Infinity''
      else r)"

text \<open>A list of results is one result: the first exception raised, or all the values.\<close>

fun sequence_sum :: "(error + 'a) list \<Rightarrow> error + 'a list" where
  "sequence_sum [] = Inr []"
| "sequence_sum (Inl e # rs) = Inl e"
| "sequence_sum (Inr x # rs) = (case sequence_sum rs of Inl e \<Rightarrow> Inl e | Inr xs \<Rightarrow> Inr (x # xs))"

fun intercalate :: "ustring \<Rightarrow> ustring list \<Rightarrow> ustring" where
  "intercalate sep [] = []"
| "intercalate sep [x] = x"
| "intercalate sep (x # y # ys) = x @ sep @ intercalate sep (y # ys)"

definition newline_indent :: "nat \<Rightarrow> ustring" where
  "newline_indent level = NL # replicate (2 * level) SPC"

definition with_key :: "ustring \<Rightarrow> error + ustring \<Rightarrow> error + ustring" where
  "with_key k r =
     (case r of Inl e \<Rightarrow> Inl e | Inr s \<Rightarrow> Inr (py_encode_basestring k @ [58, SPC] @ s))"

text \<open>
  \<open>_iterencode\<close> at nesting depth \<open>level\<close>: items are separated by a comma and a new
  line indented by two spaces per level, a key from its value by a colon and a space;
  an empty list or dict is written \<open>[]\<close> or \<open>{}\<close>. An object of a class the encoder
  does not know raises \<open>TypeError\<close>.
\<close>

function json_iterencode :: "nat \<Rightarrow> pyval \<Rightarrow> error + ustring" where
  "json_iterencode level PNone = Inr (ascii ''null'')"
| "json_iterencode level (PBool b) = Inr (if b then ascii ''true'' else ascii ''false'')"
| "json_iterencode level (PInt i) = Inr (show_int i)"
| "json_iterencode level (PFloat r) = Inr (floatstr r)"
| "json_iterencode level (PStr s) = Inr (py_encode_basestring s)"
| "json_iterencode level (PList xs) =
     (if xs = [] then Inr (ascii ''[]'')
      else case sequence_sum (map (json_iterencode (Suc level)) xs) of
             Inl e \<Rightarrow> Inl e
           | Inr parts \<Rightarrow>
               Inr ([91] @ newline_indent (Suc level)
                    @ intercalate (44 # newline_indent (Suc level)) parts
                    @ newline_indent level @ [93]))"
| "json_iterencode level (PDict kvs) =
     (if kvs = [] then Inr (ascii ''{}'')
      else case sequence_sum
                  (map (\<lambda>kv. with_key (fst kv) (json_iterencode (Suc level) (snd kv))) kvs) of
             Inl e \<Rightarrow> Inl e
           | Inr parts \<Rightarrow>
               Inr ([123] @ newline_indent (Suc level)
                    @ intercalate (44 # newline_indent (Suc level)) parts
                    @ newline_indent level @ [125]))"
| "json_iterencode level (PObject t) =
     Inl (TypeError (ascii ''Object of type '' @ t @ ascii '' is not JSON serializable''))"
  by pat_completeness auto
termination
proof (relation "measure (\<lambda>(level, v). size v)")
  show "wf (measure (\<lambda>(level, v). size v))" by simp
next
  fix level :: nat and xs :: "pyval list" and x
  assume "x \<in> set xs"
  then have "size x \<le> size_list size xs"
    by (rule size_list_estimation') simp
  then show "((Suc level, x), (level, PList xs)) \<in> measure (\<lambda>(level, v). size v)" by simp
next
  fix level :: nat and kvs :: "(ustring \<times> pyval) list" and kv
  assume "kv \<in> set kvs"
  then have "size (snd kv) \<le> size_list (size_prod (\<lambda>x. 0) size) kvs"
    by (rule size_list_estimation') (cases kv, simp)
  then show "((Suc level, snd kv), (level, PDict kvs)) \<in> measure (\<lambda>(level, v). size v)"
    by simp
qed

definition json_dumps :: "pyval \<Rightarrow> error + ustring" where
  "json_dumps obj = json_iterencode 0 obj"

section \<open>The analysis service\<close>

text \<open>
  What \<open>requests.post(api_url, json=payload, headers=headers, timeout=600)\<close> is called
  with, and the two methods of the response object the program calls:
  \<open>raise_for_status()\<close> (an exception or nothing) and \<open>json()\<close> (the decoded body or an
  exception).
\<close>

record request =
  req_url :: ustring
  req_json :: pyval
  req_headers :: "(ustring \<times> ustring) list"
  req_timeout :: nat

record response =
  raise_for_status :: "error option"
  json :: "error + pyval"

text \<open>
  The world outside the program: the service, which answers a request knowing the
  requests sent before it (so the same request may time out once and succeed later),
  \<open>json.loads\<close> of the standard library, and what pandas does when a cell of a column
  of strings is set to a list, a dict or another object (it raises an exception or
  stores a value, depending on the value and on the layout of the frame).
\<close>

record env =
  requests_post :: "request list \<Rightarrow> request \<Rightarrow> error + response"
  json_loads :: "ustring \<Rightarrow> error + pyval"
  at_set_nonscalar :: "pyval \<Rightarrow> error + pyval"

section \<open>\<open>process_excel_row\<close>\<close>

text \<open>The column names of the clause table: U+6761 U+6B3E U+7C7B U+522B (category),
  U+6761 U+6B3E / U+5185 U+5BB9 (clause/content), U+586B U+5199 U+8BF4 U+660E (fill-in
  instructions).\<close>

definition k_category :: ustring where
  "k_category = [26465, 27454, 31867, 21035]"

definition k_content :: ustring where
  "k_content = [26465, 27454, 47, 20869, 23481]"

definition k_instructions :: ustring where
  "k_instructions = [22635, 20889, 35828, 26126]"

text \<open>The keys of the outcome: U+6982 U+62EC U+603B U+7ED3 (summary), U+6761 U+6B3E
  U+7F16 U+53F7 (clause id), U+6761 U+6B3E U+539F U+6587 (clause text), and \<open>error\<close>.\<close>

definition k_summary :: ustring where
  "k_summary = [27010, 25324, 24635, 32467]"

definition k_clause_id :: ustring where
  "k_clause_id = [26465, 27454, 32534, 21495]"

definition k_clause_text :: ustring where
  "k_clause_text = [26465, 27454, 21407, 25991]"

definition k_error :: ustring where
  "k_error = ascii ''error''"

text \<open>The two sentinels: U+672A U+63D0 U+53D6 (not extracted) and U+5904 U+7406 U+5931
  U+8D25 (processing failed); and the message of the \<open>ValueError\<close> raised when the answer
  has no fenced block: U+672A U+627E U+5230 U+6709 U+6548 \<open>JSON\<close> U+6570 U+636E.\<close>

definition not_extracted :: ustring where
  "not_extracted = [26410, 25552, 21462]"

definition processing_failed :: ustring where
  "processing_failed = [22788, 29702, 22833, 36133]"

definition no_json_found :: ustring where
  "no_json_found = [26410, 25214, 21040, 26377, 25928, 74, 83, 79, 78, 25968, 25454]"

text \<open>
  Lines 94 to 100: the three cells of the row, read in this order, and their
  serialisation. A column the row does not have raises \<open>KeyError\<close>, a cell the encoder
  does not know \<open>TypeError\<close>.
\<close>

definition build_query :: "(ustring \<times> pyval) list \<Rightarrow> error + ustring" where
  "build_query row =
     (case dict_getitem row k_category of
        Inl e \<Rightarrow> Inl e
      | Inr category \<Rightarrow>
     (case dict_getitem row k_content of
        Inl e \<Rightarrow> Inl e
      | Inr content \<Rightarrow>
     (case dict_getitem row k_instructions of
        Inl e \<Rightarrow> Inl e
      | Inr instructions \<Rightarrow>
          json_dumps (PDict [(k_category, category), (k_content, content),
                             (k_instructions, instructions)]))))"

text \<open>Lines 103 to 114: the headers and the body of the request.\<close>

definition build_headers :: "ustring \<Rightarrow> (ustring \<times> ustring) list" where
  "build_headers api_auth =
     [(ascii ''Authorization'', api_auth), (ascii ''Content-Type'', ascii ''application/json'')]"

definition build_payload :: "ustring \<Rightarrow> ustring \<Rightarrow> pyval" where
  "build_payload query_json file_content =
     PDict [(ascii ''response_mode'', PStr (ascii ''blocking'')),
            (ascii ''user'', PStr (ascii ''haha-shareholder'')),
            (ascii ''inputs'', PDict [(ascii ''Query'', PStr query_json),
                                      (ascii ''File'', PStr file_content)])]"

text \<open>
  Lines 116 to 125: one call of \<open>requests.post\<close>, then \<open>raise_for_status()\<close> and
  \<open>json()\<close>. The request is added to the requests sent whatever the service answers.
\<close>

definition call_api ::
  "env \<Rightarrow> ustring \<Rightarrow> ustring \<Rightarrow> pyval \<Rightarrow> request list \<Rightarrow> (error + pyval) \<times> request list" where
  "call_api environ api_url api_auth payload sent =
     (let req = \<lparr>req_url = api_url, req_json = payload,
                 req_headers = build_headers api_auth, req_timeout = 600\<rparr>
      in (case requests_post environ sent req of
            Inl e \<Rightarrow> Inl e
          | Inr resp \<Rightarrow>
              (case raise_for_status resp of Some e \<Rightarrow> Inl e | None \<Rightarrow> json resp),
          sent @ [req]))"

text \<open>
  \<open>re.search(r'```json(.*?)```', answer, re.DOTALL)\<close> and \<open>group(1)\<close>. The search takes
  the leftmost place where the pattern matches: the first \<open>```json\<close> that has a
  \<open>```\<close> somewhere after it; if the first \<open>```json\<close> has none, no later one has. The
  group is lazy and, with \<open>DOTALL\<close>, crosses lines: it ends at the first \<open>```\<close> after the
  opening token.
\<close>

fun after_first :: "ustring \<Rightarrow> ustring \<Rightarrow> ustring option" where
  "after_first pat [] = (if pat = [] then Some [] else None)"
| "after_first pat (c # cs) =
     (if prefix pat (c # cs) then Some (drop (length pat) (c # cs)) else after_first pat cs)"

fun before_first :: "ustring \<Rightarrow> ustring \<Rightarrow> ustring option" where
  "before_first pat [] = (if pat = [] then Some [] else None)"
| "before_first pat (c # cs) =
     (if prefix pat (c # cs) then Some []
      else map_option ((#) c) (before_first pat cs))"

definition fence_open :: ustring where
  "fence_open = ascii ''```json''"

definition fence_close :: ustring where
  "fence_close = ascii ''```''"

definition fence_search :: "ustring \<Rightarrow> ustring option" where
  "fence_search answer =
     (case after_first fence_open answer of
        None \<Rightarrow> None
      | Some rest \<Rightarrow> before_first fence_close rest)"

text \<open>\<open>re.search\<close> on a value that is not a string raises \<open>TypeError\<close>.\<close>

fun re_search :: "pyval \<Rightarrow> error + ustring option" where
  "re_search (PStr answer) = Inr (fence_search answer)"
| "re_search v =
     Inl (TypeError (ascii ''expected string or bytes-like object, got ''
                     @ [39] @ type_name v @ [39]))"

text \<open>Line 136: \<open>answer = result_json['data']['outputs']['Answer']\<close>.\<close>

definition get_answer :: "pyval \<Rightarrow> error + pyval" where
  "get_answer result_json =
     (case py_getitem result_json (ascii ''data'') of
        Inl e \<Rightarrow> Inl e
      | Inr data \<Rightarrow>
     (case py_getitem data (ascii ''outputs'') of
        Inl e \<Rightarrow> Inl e
      | Inr outputs \<Rightarrow> py_getitem outputs (ascii ''Answer'')))"

text \<open>
  Lines 136 to 147: the answer is read, the fenced block is searched, stripped and
  parsed, and the three keys are read with \<open>get\<close> in the order of the dict display.
\<close>

definition extract_result :: "env \<Rightarrow> pyval \<Rightarrow> error + (ustring \<times> pyval) list" where
  "extract_result environ result_json =
     (case get_answer result_json of
        Inl e \<Rightarrow> Inl e
      | Inr answer \<Rightarrow>
     (case re_search answer of
        Inl e \<Rightarrow> Inl e
      | Inr None \<Rightarrow> Inl (ValueError no_json_found)
      | Inr (Some group1) \<Rightarrow>
     (case json_loads environ (py_strip group1) of
        Inl e \<Rightarrow> Inl e
      | Inr result \<Rightarrow>
     (case py_get result k_summary (PStr not_extracted) of
        Inl e \<Rightarrow> Inl e
      | Inr summary \<Rightarrow>
     (case py_get result k_clause_id (PStr not_extracted) of
        Inl e \<Rightarrow> Inl e
      | Inr clause_id \<Rightarrow>
     (case py_get result k_clause_text (PStr not_extracted) of
        Inl e \<Rightarrow> Inl e
      | Inr clause_text \<Rightarrow>
          Inr [(k_summary, summary), (k_clause_id, clause_id),
               (k_clause_text, clause_text), (k_error, PStr [])]))))))"

text \<open>Lines 150 to 155: the dict returned by the \<open>except Exception\<close> handler.\<close>

definition failure_outcome :: "error \<Rightarrow> (ustring \<times> pyval) list" where
  "failure_outcome e =
     [(k_summary, PStr processing_failed), (k_clause_id, PStr processing_failed),
      (k_clause_text, PStr processing_failed), (k_error, PStr (describe e))]"

text \<open>
  \<open>process_excel_row(row, file_content, api_url, api_auth)\<close>: the \<open>try\<close> block runs the
  three steps, and an exception of any of them ends in the handler. The function
  returns the outcome and the requests sent so far.
\<close>

definition process_excel_row ::
  "env \<Rightarrow> (ustring \<times> pyval) list \<Rightarrow> ustring \<Rightarrow> ustring \<Rightarrow> ustring \<Rightarrow> request list
   \<Rightarrow> (ustring \<times> pyval) list \<times> request list" where
  "process_excel_row environ row file_content api_url api_auth sent =
     (case build_query row of
        Inl e \<Rightarrow> (failure_outcome e, sent)
      | Inr query_json \<Rightarrow>
          (case call_api environ api_url api_auth (build_payload query_json file_content) sent of
             (Inl e, sent') \<Rightarrow> (failure_outcome e, sent')
           | (Inr result_json, sent') \<Rightarrow>
               (case extract_result environ result_json of
                  Inl e \<Rightarrow> (failure_outcome e, sent')
                | Inr outcome \<Rightarrow> (outcome, sent'))))"

section \<open>\<open>main\<close>: the table of one document\<close>

text \<open>
  A pandas \<open>DataFrame\<close> with the default index \<open>0, 1, \<dots>\<close> that \<open>read_excel\<close> gives it:
  the column labels and, row by row, one cell per column.
\<close>

record dataframe =
  columns :: "ustring list"
  rows :: "pyval list list"

fun col_pos :: "ustring \<Rightarrow> ustring list \<Rightarrow> nat" where
  "col_pos c [] = 0"
| "col_pos c (x # xs) = (if x = c then 0 else Suc (col_pos c xs))"

text \<open>
  \<open>df[col] = value\<close> with a scalar: a column of that name is overwritten where it
  stands, otherwise the column is added after the last one. The only value the program
  sets a column to is the empty string.
\<close>

definition df_setitem :: "dataframe \<Rightarrow> ustring \<Rightarrow> pyval \<Rightarrow> dataframe" where
  "df_setitem df col v =
     (if col \<in> set (columns df)
      then df\<lparr>rows := map (\<lambda>r. r[col_pos col (columns df) := v]) (rows df)\<rparr>
      else \<lparr>columns = columns df @ [col], rows = map (\<lambda>r. r @ [v]) (rows df)\<rparr>)"

text \<open>\<open>df[[c1, c2, \<dots>]] = value\<close> with a scalar sets the columns one after the other.\<close>

fun df_setitem_list :: "dataframe \<Rightarrow> ustring list \<Rightarrow> pyval \<Rightarrow> dataframe" where
  "df_setitem_list df [] v = df"
| "df_setitem_list df (col # cols) v = df_setitem_list (df_setitem df col v) cols v"

text \<open>
  A column made by \<open>df[col] = ''\<close> has the dtype \<open>str\<close> (pandas 3). A write of a scalar
  to such a column stores a string as it is and a missing value (\<open>None\<close>, a float NaN)
  as NaN; for a truth value or another number it raises \<open>TypeError\<close>, whose message
  quotes the value and the name of its type. What happens for a value that is not a
  scalar is given by the environment.
\<close>

definition nan :: pyval where
  "nan = PFloat (ascii ''nan'')"

definition invalid_value :: "ustring \<Rightarrow> ustring \<Rightarrow> error" where
  "invalid_value shown tname =
     TypeError (ascii ''Invalid value '' @ [39] @ shown @ [39] @ ascii '' for dtype ''
                @ [39] @ ascii ''str'' @ [39]
                @ ascii ''. Value should be a string or missing value, got ''
                @ [39] @ tname @ [39] @ ascii '' instead.'')"

fun str_dtype_value :: "env \<Rightarrow> pyval \<Rightarrow> error + pyval" where
  "str_dtype_value environ (PStr s) = Inr (PStr s)"
| "str_dtype_value environ PNone = Inr nan"
| "str_dtype_value environ (PBool b) =
     Inl (invalid_value (if b then ascii ''True'' else ascii ''False'') (ascii ''bool''))"
| "str_dtype_value environ (PInt i) = Inl (invalid_value (show_int i) (ascii ''int''))"
| "str_dtype_value environ (PFloat r) =
     (if r = ascii ''nan'' then Inr nan else Inl (invalid_value r (ascii ''float'')))"
| "str_dtype_value environ v = at_set_nonscalar environ v"

text \<open>
  \<open>df.at[idx, col] = value\<close> for a column of dtype \<open>str\<close>, a row label and a column
  label the frame has (pandas would enlarge the frame for a label it lacks; the loop
  below only writes to the rows of the table and to the four columns set before it).
\<close>

definition df_at_set ::
  "env \<Rightarrow> dataframe \<Rightarrow> nat \<Rightarrow> ustring \<Rightarrow> pyval \<Rightarrow> error + dataframe" where
  "df_at_set environ df idx col v =
     (if idx < length (rows df) \<and> col \<in> set (columns df)
      then (case str_dtype_value environ v of
              Inl e \<Rightarrow> Inl e
            | Inr stored \<Rightarrow>
                Inr (df\<lparr>rows :=
                     (rows df)[idx := (rows df ! idx)[col_pos col (columns df) := stored]]\<rparr>))
      else Inr df)"

text \<open>\<open>df.iterrows()\<close>: the index and the row, a mapping from the column labels.\<close>

definition iterrows :: "dataframe \<Rightarrow> (nat \<times> (ustring \<times> pyval) list) list" where
  "iterrows df = zip [0..<length (rows df)] (map (zip (columns df)) (rows df))"

definition result_columns :: "ustring list" where
  "result_columns = [k_summary, k_clause_id, k_clause_text, k_error]"

text \<open>Lines 192 and 193: \<open>for col in [\<dots>]: result_df.at[idx, col] = result[col]\<close>.\<close>

fun update_result ::
  "env \<Rightarrow> dataframe \<Rightarrow> nat \<Rightarrow> (ustring \<times> pyval) list \<Rightarrow> ustring list
   \<Rightarrow> error + dataframe" where
  "update_result environ result_df idx result [] = Inr result_df"
| "update_result environ result_df idx result (col # cols) =
     (case dict_getitem result col of
        Inl e \<Rightarrow> Inl e
      | Inr v \<Rightarrow>
          (case df_at_set environ result_df idx col v of
             Inl e \<Rightarrow> Inl e
           | Inr result_df' \<Rightarrow> update_result environ result_df' idx result cols))"

text \<open>
  Lines 182 to 193, the loop over the rows. The log line of line 183 formats
  \<open>row[k_content]\<close> before \<open>process_excel_row\<close> is called and outside its \<open>try\<close>
  block: a row without that column raises \<open>KeyError\<close> here, in the \<open>try\<close> block of
  \<open>main\<close>. An exception of a write to the result table ends the loop too.
\<close>

fun main_row_loop ::
  "env \<Rightarrow> ustring \<Rightarrow> ustring \<Rightarrow> ustring \<Rightarrow> (nat \<times> (ustring \<times> pyval) list) list
   \<Rightarrow> dataframe \<Rightarrow> request list \<Rightarrow> (error + dataframe) \<times> request list" where
  "main_row_loop environ file_content api_url api_auth [] result_df sent = (Inr result_df, sent)"
| "main_row_loop environ file_content api_url api_auth ((idx, row) # rest) result_df sent =
     (case dict_getitem row k_content of
        Inl e \<Rightarrow> (Inl e, sent)
      | Inr logged \<Rightarrow>
          (case process_excel_row environ row file_content api_url api_auth sent of
             (result, sent') \<Rightarrow>
               (case update_result environ result_df idx result result_columns of
                  Inl e \<Rightarrow> (Inl e, sent')
                | Inr result_df' \<Rightarrow>
                    main_row_loop environ file_content api_url api_auth rest result_df' sent')))"

text \<open>
  Lines 174 to 201, the \<open>try\<close> block of \<open>main\<close> for one document. The input is what
  \<open>pd.read_excel\<close> gives (the table or an exception); the result is the table handed to
  \<open>to_excel\<close>, or the exception that the handler of line 200 logs, in which case no file
  is written for the document.
\<close>

definition main_process_excel ::
  "env \<Rightarrow> error + dataframe \<Rightarrow> ustring \<Rightarrow> ustring \<Rightarrow> ustring \<Rightarrow> request list
   \<Rightarrow> (error + dataframe) \<times> request list" where
  "main_process_excel environ excel file_content api_url api_auth sent =
     (case excel of
        Inl e \<Rightarrow> (Inl e, sent)
      | Inr df \<Rightarrow>
          main_row_loop environ file_content api_url api_auth (iterrows df)
            (df_setitem_list df result_columns (PStr [])) sent)"

section \<open>Auxiliary notions for the proofs about \<open>read_word_doc\<close>\<close>

text \<open>What \<open>text.replace('\t', ' ')\<close> computes: every tab becomes a space.\<close>

definition tabfix :: "ustring \<Rightarrow> ustring" where
  "tabfix t = map (\<lambda>c. if c = TAB then SPC else c) t"

text \<open>
  The lines the loop appends for a list of texts that passed the two patterns, \<open>b\<close>
  telling whether the line appended last is the blank line.
\<close>

fun collapse :: "bool \<Rightarrow> ustring list \<Rightarrow> ustring list" where
  "collapse b [] = []"
| "collapse b (t # ts) =
     (if t = [] \<and> b then collapse b ts else (tabfix t @ [NL]) # collapse (t = []) ts)"

text \<open>A stripped text that neither pattern removes.\<close>

definition keep_text :: "ustring \<Rightarrow> bool" where
  "keep_text t \<longleftrightarrow> \<not> (page_num_match t \<or> dots_search t)"

text \<open>The non-empty texts, each followed by the line terminator.\<close>

definition flines :: "ustring list \<Rightarrow> ustring" where
  "flines ts = concat (map (\<lambda>l. l @ [NL]) (filter (\<lambda>l. l \<noteq> []) (map tabfix ts)))"

text \<open>The blank line that opens the output when the first text kept is empty.\<close>

definition lead :: "ustring list \<Rightarrow> ustring" where
  "lead ts = (case ts of [] \<Rightarrow> [] | t # _ \<Rightarrow> if t = [] then [NL] else [])"

definition kept_texts :: "ustring list \<Rightarrow> ustring list" where
  "kept_texts paras = filter keep_text (map py_strip paras)"

text \<open>
  Splitting a text on its line terminators, as \<open>str.splitlines\<close> does: every line
  ends at a terminator, and a text that ends with one has no empty last line.
\<close>

fun splitlines_acc :: "ustring \<Rightarrow> ustring \<Rightarrow> ustring list" where
  "splitlines_acc cur [] = (if cur = [] then [] else [cur])"
| "splitlines_acc cur (c # cs) =
     (if c = NL then cur # splitlines_acc [] cs else splitlines_acc (cur @ [c]) cs)"

definition splitlines :: "ustring \<Rightarrow> ustring list" where
  "splitlines s = splitlines_acc [] s"

definition nonempty_lines :: "ustring list \<Rightarrow> ustring list" where
  "nonempty_lines ts = filter (\<lambda>l. l \<noteq> []) (map tabfix ts)"

text \<open>
  Splitting a text at every line terminator, as \<open>str.split('\n')\<close> does: a text that
  ends with a terminator has an empty last piece, and the empty text is one empty piece.
\<close>

fun split_sep_acc :: "ustring \<Rightarrow> ustring \<Rightarrow> ustring list" where
  "split_sep_acc cur [] = [cur]"
| "split_sep_acc cur (c # cs) =
     (if c = NL then cur # split_sep_acc [] cs else split_sep_acc (cur @ [c]) cs)"

definition split_sep :: "ustring \<Rightarrow> ustring list" where
  "split_sep s = split_sep_acc [] s"

text \<open>The lines of the normalised text, in terms of the texts kept.\<close>

definition relines :: "ustring list \<Rightarrow> ustring list" where
  "relines ts = map (\<lambda>c. []) (lead ts) @ nonempty_lines ts"

section \<open>Auxiliary notions for the claims about \<open>process_excel_row\<close>\<close>

text \<open>An outcome all of whose values are strings.\<close>

definition all_strings :: "(ustring \<times> pyval) list \<Rightarrow> bool" where
  "all_strings outcome = list_all (\<lambda>kv. is_str (snd kv)) outcome"

text \<open>
  The two shapes of an outcome: the success record has the empty string under \<open>error\<close>;
  the failure record has the sentinel for processing failed under the three result keys
  and a description, a string, under \<open>error\<close>.
\<close>

definition success_shape :: "(ustring \<times> pyval) list \<Rightarrow> bool" where
  "success_shape outcome \<longleftrightarrow> dict_getitem outcome k_error = Inr (PStr [])"

definition failure_shape :: "(ustring \<times> pyval) list \<Rightarrow> bool" where
  "failure_shape outcome \<longleftrightarrow>
     dict_getitem outcome k_summary = Inr (PStr processing_failed) \<and>
     dict_getitem outcome k_clause_id = Inr (PStr processing_failed) \<and>
     dict_getitem outcome k_clause_text = Inr (PStr processing_failed) \<and>
     (case dict_getitem outcome k_error of Inr v \<Rightarrow> is_str v | Inl e \<Rightarrow> False)"

text \<open>The dict of lines 142 to 147 for a parsed JSON object \<open>kvs\<close>.\<close>

definition success_outcome :: "(ustring \<times> pyval) list \<Rightarrow> (ustring \<times> pyval) list" where
  "success_outcome kvs =
     [(k_summary, case map_of kvs k_summary of None \<Rightarrow> PStr not_extracted | Some v \<Rightarrow> v),
      (k_clause_id, case map_of kvs k_clause_id of None \<Rightarrow> PStr not_extracted | Some v \<Rightarrow> v),
      (k_clause_text, case map_of kvs k_clause_text of None \<Rightarrow> PStr not_extracted | Some v \<Rightarrow> v),
      (k_error, PStr [])]"

text \<open>
  The text \<open>json.dumps\<close> gives for the three clause fields when they are strings.
\<close>

definition query_text :: "ustring \<Rightarrow> ustring \<Rightarrow> ustring \<Rightarrow> ustring" where
  "query_text category content instructions =
     [123, NL, SPC, SPC] @ [34] @ k_category @ [34] @ [58, SPC] @ py_encode_basestring category @
     [44, NL, SPC, SPC] @ [34] @ k_content @ [34] @ [58, SPC] @ py_encode_basestring content @
     [44, NL, SPC, SPC] @ [34] @ k_instructions @ [34] @ [58, SPC] @ py_encode_basestring instructions @
     [NL, 125]"

text \<open>
  Example worlds: a service that answers every request with status 200 and a body
  whose \<open>data.outputs.Answer\<close> is the given value, and a \<open>json.loads\<close> given by a finite
  table of texts and the values they parse to (any other text is refused, with the
  message of \<open>json.loads\<close> for a text that does not start a JSON value); a write of a
  value that is not a scalar to a column of strings is refused.
\<close>

definition service_answering :: "pyval \<Rightarrow> (ustring \<Rightarrow> error + pyval) \<Rightarrow> env" where
  "service_answering answer loads =
     \<lparr>requests_post = (\<lambda>sent req. Inr \<lparr>raise_for_status = None,
         json = Inr (PDict [(ascii ''data'',
                  PDict [(ascii ''outputs'', PDict [(ascii ''Answer'', answer)])])])\<rparr>),
      json_loads = loads,
      at_set_nonscalar =
        (\<lambda>v. Inl (ValueError (ascii ''setting an array element with a sequence.'')))\<rparr>"

text \<open>A service that cannot be reached: every call raises the given exception.\<close>

definition service_failing :: "error \<Rightarrow> env" where
  "service_failing e =
     \<lparr>requests_post = (\<lambda>sent req. Inl e),
      json_loads = (\<lambda>s. Inl (JSONDecodeError (ascii ''Expecting value: line 1 column 1 (char 0)''))),
      at_set_nonscalar =
        (\<lambda>v. Inl (ValueError (ascii ''setting an array element with a sequence.'')))\<rparr>"

definition loads_table :: "(ustring \<times> pyval) list \<Rightarrow> ustring \<Rightarrow> error + pyval" where
  "loads_table table s =
     (case map_of table s of
        None \<Rightarrow> Inl (JSONDecodeError (ascii ''Expecting value: line 1 column 1 (char 0)''))
      | Some v \<Rightarrow> Inr v)"

definition example_row :: "(ustring \<times> pyval) list" where
  "example_row = [(k_category, PStr [65]), (k_content, PStr [66]), (k_instructions, PStr [67])]"

text \<open>
  An example of a JSON text with the three keys, whose values are the strings \<open>1\<close>,
  \<open>2\<close> and \<open>3\<close>, the value \<open>json.loads\<close> gives for it, and the text of an object
  whose summary is \<open>null\<close>.
\<close>

definition example_object_text :: ustring where
  "example_object_text =
     [123, 34, 27010, 25324, 24635, 32467, 34, 58, 32, 34, 49, 34, 44, 32,
      34, 26465, 27454, 32534, 21495, 34, 58, 32, 34, 50, 34, 44, 32,
      34, 26465, 27454, 21407, 25991, 34, 58, 32, 34, 51, 34, 125]"

definition example_object :: pyval where
  "example_object =
     PDict [(k_summary, PStr [49]), (k_clause_id, PStr [50]), (k_clause_text, PStr [51])]"

definition example_null_text :: ustring where
  "example_null_text = [123, 34, 27010, 25324, 24635, 32467, 34, 58, 32, 110, 117, 108, 108, 125]"

text \<open>
  The first fenced block of an answer, in words: the answer is \<open>pre\<close>, the opening token,
  \<open>body\<close>, the closing token and \<open>post\<close>, where the opening token occurs nowhere
  earlier in the answer and the closing token nowhere earlier after the opening one.
  (\<open>first_occurrence pat s n\<close>: the pattern occurs in \<open>s\<close> at position \<open>n\<close> and at no
  position before it.)
\<close>

definition first_occurrence :: "ustring \<Rightarrow> ustring \<Rightarrow> nat \<Rightarrow> bool" where
  "first_occurrence pat s n \<longleftrightarrow> prefix pat (drop n s) \<and> (\<forall>i < n. \<not> prefix pat (drop i s))"

definition first_fenced_block :: "ustring \<Rightarrow> ustring \<Rightarrow> ustring \<Rightarrow> ustring \<Rightarrow> bool" where
  "first_fenced_block answer pre body post \<longleftrightarrow>
     answer = pre @ fence_open @ body @ fence_close @ post \<and>
     first_occurrence fence_open answer (length pre) \<and>
     first_occurrence fence_close (body @ fence_close @ post) (length body)"

text \<open>
  Example answers with two fenced blocks: the second one is well formed and has the three
  keys, the first one is the text \<open>x\<close>; the empty block followed by the block of the
  empty object; the block of the empty object, and the block with the three keys,
  followed by another block.
\<close>

definition answer_second_block_good :: ustring where
  "answer_second_block_good =
     fence_open @ ascii '' x '' @ fence_close @ fence_open @ example_object_text @ fence_close"

definition answer_empty_then_object :: ustring where
  "answer_empty_then_object = fence_open @ fence_open @ ascii ''{}'' @ fence_close"

definition answer_empty_object_first :: ustring where
  "answer_empty_object_first =
     fence_open @ ascii '' {} '' @ fence_close @ fence_open @ ascii '' x '' @ fence_close"

definition answer_first_block_good :: ustring where
  "answer_first_block_good =
     ascii ''Answer: '' @ fence_open @ [NL] @ example_object_text @ [NL] @ fence_close
     @ ascii '' or '' @ fence_open @ ascii '' x '' @ fence_close"

text \<open>
  A JSON string literal read back, as the grammar of JSON has it: between two double
  quotes, a character from U+0020 on that is neither the double quote nor the backslash
  stands for itself; a backslash is followed by one of \<open>" \ / b f n r t\<close> or by \<open>u\<close> and
  four hexadecimal digits; no other character may occur. (An escaped surrogate pair is
  read as two code points.) The reader is written from the grammar, not from the
  encoder.
\<close>

definition hex_val :: "nat \<Rightarrow> nat option" where
  "hex_val c =
     (if 48 \<le> c \<and> c \<le> 57 then Some (c - 48)
      else if 97 \<le> c \<and> c \<le> 102 then Some (c - 87)
      else if 65 \<le> c \<and> c \<le> 70 then Some (c - 55)
      else None)"

definition short_escape :: "nat \<Rightarrow> nat option" where
  "short_escape c =
     (if c = 34 then Some 34
      else if c = 92 then Some 92
      else if c = 47 then Some 47
      else if c = 98 then Some 8
      else if c = 102 then Some 12
      else if c = 110 then Some 10
      else if c = 114 then Some 13
      else if c = 116 then Some 9
      else None)"

datatype read_mode = Plain | Escaped | Hex nat nat

fun json_string_chars :: "read_mode \<Rightarrow> ustring \<Rightarrow> ustring option" where
  "json_string_chars m [] = None"
| "json_string_chars Plain (c # cs) =
     (if c = 34 then (if cs = [] then Some [] else None)
      else if c = 92 then json_string_chars Escaped cs
      else if c < 32 then None
      else map_option ((#) c) (json_string_chars Plain cs))"
| "json_string_chars Escaped (c # cs) =
     (if c = 117 then json_string_chars (Hex 3 0) cs
      else (case short_escape c of
              None \<Rightarrow> None
            | Some ch \<Rightarrow> map_option ((#) ch) (json_string_chars Plain cs)))"
| "json_string_chars (Hex n acc) (c # cs) =
     (case hex_val c of
        None \<Rightarrow> None
      | Some d \<Rightarrow>
          (case n of
             0 \<Rightarrow> map_option ((#) (acc * 16 + d)) (json_string_chars Plain cs)
           | Suc k \<Rightarrow> json_string_chars (Hex k (acc * 16 + d)) cs))"

definition json_string_decode :: "ustring \<Rightarrow> ustring option" where
  "json_string_decode t =
     (case t of [] \<Rightarrow> None | c # cs \<Rightarrow> if c = 34 then json_string_chars Plain cs else None)"

text \<open>
  The layout of the query as the specification words it: a JSON object with the keys in
  the order category, clause/content, fill-in instructions, one item per line indented
  by two spaces, the key between double quotes, a colon, a space and the string literal
  of the field.
\<close>

definition query_layout :: "ustring \<Rightarrow> ustring \<Rightarrow> ustring \<Rightarrow> ustring" where
  "query_layout category_literal content_literal instructions_literal =
     [123, NL, SPC, SPC] @ [34] @ k_category @ [34] @ [58, SPC] @ category_literal @
     [44, NL, SPC, SPC] @ [34] @ k_content @ [34] @ [58, SPC] @ content_literal @
     [44, NL, SPC, SPC] @ [34] @ k_instructions @ [34] @ [58, SPC] @ instructions_literal @
     [NL, 125]"

text \<open>
  A row whose fields hold a double quote, a backslash and a line feed, and the control
  characters U+0001 and U+001F next to U+6761 and U+007F.
\<close>

definition special_row :: "(ustring \<times> pyval) list" where
  "special_row =
     [(k_category, PStr [34]), (k_content, PStr [92, 10]),
      (k_instructions, PStr [1, 26465, 31, 127])]"

text \<open>The text of an object whose clause id is the number 3.\<close>

definition example_number_text :: ustring where
  "example_number_text = [123, 34, 26465, 27454, 32534, 21495, 34, 58, 32, 51, 125]"


section \<open>Auxiliary notions for the claims about the table\<close>

text \<open>
  The outcomes of the rows of a table, in row order, each row processed after the
  requests of the rows before it, and the requests sent in the end.
\<close>

fun process_rows ::
  "env \<Rightarrow> ustring \<Rightarrow> ustring \<Rightarrow> ustring \<Rightarrow> (ustring \<times> pyval) list list \<Rightarrow> request list
   \<Rightarrow> (ustring \<times> pyval) list list \<times> request list" where
  "process_rows environ file_content api_url api_auth [] sent = ([], sent)"
| "process_rows environ file_content api_url api_auth (row # rest) sent =
     (case process_excel_row environ row file_content api_url api_auth sent of
        (outcome, sent') \<Rightarrow>
          (case process_rows environ file_content api_url api_auth rest sent' of
             (outcomes, sent'') \<Rightarrow> (outcome # outcomes, sent'')))"

text \<open>
  Example tables: a clause table that already has a column named \<open>error\<close> and a
  clause table of two rows; and a service whose first answer is a timeout.
\<close>

definition example_table_with_error :: dataframe where
  "example_table_with_error =
     \<lparr>columns = [k_category, k_content, k_instructions, k_error],
      rows = [[PStr [65], PStr [66], PStr [67], PStr [68]]]\<rparr>"

definition example_table :: dataframe where
  "example_table =
     \<lparr>columns = [k_category, k_content, k_instructions],
      rows = [[PStr [65], PStr [66], PStr [67]], [PStr [68], PStr [69], PStr [70]]]\<rparr>"


text \<open>Clause tables that lack the clause/content column, or the category column.\<close>

definition example_table_without_content :: dataframe where
  "example_table_without_content =
     \<lparr>columns = [k_category, k_instructions],
      rows = [[PStr [65], PStr [67]], [PStr [68], PStr [70]]]\<rparr>"

definition example_table_without_category :: dataframe where
  "example_table_without_category =
     \<lparr>columns = [k_content, k_instructions], rows = [[PStr [66], PStr [67]]]\<rparr>"

text \<open>
  The cells the loop stores for an outcome: the values of the four keys, each as the
  column of strings keeps it, or the first exception of a write.
\<close>

definition stored_cells :: "env \<Rightarrow> (ustring \<times> pyval) list \<Rightarrow> error + pyval list" where
  "stored_cells environ outcome =
     sequence_sum (map (\<lambda>kv. str_dtype_value environ (snd kv)) outcome)"

text \<open>
  The cells stored for the rows of a table, row after row: a row is processed after
  the requests of the rows before it, and a write that raises ends the loop, so that
  the rows after it are not processed.
\<close>

fun write_rows ::
  "env \<Rightarrow> ustring \<Rightarrow> ustring \<Rightarrow> ustring \<Rightarrow> (ustring \<times> pyval) list list \<Rightarrow> request list
   \<Rightarrow> (error + pyval list list) \<times> request list" where
  "write_rows environ file_content api_url api_auth [] sent = (Inr [], sent)"
| "write_rows environ file_content api_url api_auth (row # rest) sent =
     (case process_excel_row environ row file_content api_url api_auth sent of
        (outcome, sent') \<Rightarrow>
          (case stored_cells environ outcome of
             Inl e \<Rightarrow> (Inl e, sent')
           | Inr cells \<Rightarrow>
               (case write_rows environ file_content api_url api_auth rest sent' of
                  (Inl e, sent'') \<Rightarrow> (Inl e, sent'')
                | (Inr others, sent'') \<Rightarrow> (Inr (cells # others), sent''))))"

section \<open>Properties of \<open>read_word_doc\<close>\<close>

lemma py_replace_tab: "py_replace [TAB] [SPC] t = tabfix t"
  by (induction t) (auto simp: tabfix_def)

lemma tabfix_Nil_iff [simp]: "tabfix t = [] \<longleftrightarrow> t = []"
  by (simp add: tabfix_def)

lemma tabfix_Nil [simp]: "tabfix [] = []"
  by (simp add: tabfix_def)

lemma replace_nl_nl:
  "py_replace [NL, NL] [NL] (NL # NL # u) = NL # py_replace [NL, NL] [NL] u"
  by simp

lemma replace_nl_other:
  "u = [] \<or> hd u \<noteq> NL \<Longrightarrow>
   py_replace [NL, NL] [NL] (NL # u) = NL # py_replace [NL, NL] [NL] u"
  by (cases u) auto

lemma loop_collapse:
  "read_word_doc_loop ft paras =
     ft @ collapse (ft \<noteq> [] \<and> last ft = [NL]) (filter keep_text (map py_strip paras))"
proof (induction paras arbitrary: ft)
  case Nil
  then show ?case by simp
next
  case (Cons p ps)
  show ?case
    by (simp add: Cons.IH Let_def keep_text_def py_replace_tab)
qed

lemma replace_nl_skip:
  "NL \<notin> set t \<Longrightarrow> py_replace [NL, NL] [NL] (t @ u) = t @ py_replace [NL, NL] [NL] u"
  by (induction t) auto

lemma tabfix_no_nl: "NL \<notin> set t \<Longrightarrow> NL \<notin> set (tabfix t)"
  by (auto simp: tabfix_def)

lemma collapse_True_head:
  "\<forall>t \<in> set ts. NL \<notin> set t \<Longrightarrow> concat (collapse True ts) = [] \<or> hd (concat (collapse True ts)) \<noteq> NL"
proof (induction ts)
  case Nil
  then show ?case by simp
next
  case (Cons t ts)
  show ?case
  proof (cases "t = []")
    case True
    with Cons show ?thesis by simp
  next
    case False
    then obtain c cs where t: "tabfix t = c # cs" by (cases "tabfix t") auto
    from Cons.prems have "NL \<notin> set (tabfix t)" by (simp add: tabfix_no_nl)
    with t have "c \<noteq> NL" by auto
    with False t show ?thesis by simp
  qed
qed

lemma replace_after_text:
  assumes "\<forall>t \<in> set ts. NL \<notin> set t"
  shows "py_replace [NL, NL] [NL] (NL # concat (collapse False ts)) = NL # flines ts
       \<and> py_replace [NL, NL] [NL] (concat (collapse True ts)) = flines ts"
  using assms
proof (induction ts)
  case Nil
  then show ?case by (simp add: flines_def)
next
  case (Cons t ts)
  then have IH1: "py_replace [NL, NL] [NL] (NL # concat (collapse False ts)) = NL # flines ts"
    and IH2: "py_replace [NL, NL] [NL] (concat (collapse True ts)) = flines ts"
    by simp_all
  show ?case
  proof (cases "t = []")
    case True
    then show ?thesis using IH2 by (simp add: flines_def)
  next
    case False
    then obtain c cs where t: "tabfix t = c # cs" by (cases "tabfix t") auto
    from Cons.prems have nonl: "NL \<notin> set (tabfix t)" by (simp add: tabfix_no_nl)
    with t have c: "c \<noteq> NL" by auto
    have fl: "flines (t # ts) = tabfix t @ NL # flines ts"
      using False by (simp add: flines_def)
    have step: "py_replace [NL, NL] [NL] (tabfix t @ NL # concat (collapse False ts))
                = tabfix t @ NL # flines ts"
      using replace_nl_skip [OF nonl] IH1 by simp
    have a: "py_replace [NL, NL] [NL] (NL # concat (collapse False (t # ts))) = NL # flines (t # ts)"
    proof -
      have "py_replace [NL, NL] [NL] (NL # concat (collapse False (t # ts)))
            = NL # py_replace [NL, NL] [NL] (tabfix t @ NL # concat (collapse False ts))"
        using False t c by simp
      then show ?thesis using step fl by simp
    qed
    have b: "py_replace [NL, NL] [NL] (concat (collapse True (t # ts))) = flines (t # ts)"
      using False step fl by simp
    from a b show ?thesis by simp
  qed
qed

lemma replace_collapse_False:
  assumes "\<forall>t \<in> set ts. NL \<notin> set t"
  shows "py_replace [NL, NL] [NL] (concat (collapse False ts)) = lead ts @ flines ts"
proof (cases ts)
  case Nil
  then show ?thesis by (simp add: lead_def flines_def)
next
  case (Cons t ts')
  from assms Cons have rest: "\<forall>t \<in> set ts'. NL \<notin> set t" by simp
  show ?thesis
  proof (cases "t = []")
    case True
    have "py_replace [NL, NL] [NL] (NL # concat (collapse True ts'))
          = NL # py_replace [NL, NL] [NL] (concat (collapse True ts'))"
      by (rule replace_nl_other [OF collapse_True_head [OF rest]])
    then show ?thesis
      using True Cons replace_after_text [OF rest] by (simp add: lead_def flines_def)
  next
    case False
    from assms Cons have nonl: "NL \<notin> set (tabfix t)" by (simp add: tabfix_no_nl)
    have "py_replace [NL, NL] [NL] (tabfix t @ NL # concat (collapse False ts'))
                = tabfix t @ NL # flines ts'"
      using replace_nl_skip [OF nonl] replace_after_text [OF rest] by simp
    then show ?thesis using False Cons by (simp add: lead_def flines_def)
  qed
qed

lemma contains_sub_sublist: "contains_sub pat s \<longleftrightarrow> sublist pat s"
  by (induction s) (auto simp: sublist_Cons_right)

lemma contains_nl_skip:
  "NL \<notin> set l \<Longrightarrow> contains_sub [NL, NL] (l @ u) = contains_sub [NL, NL] u"
  by (induction l) auto

lemma flines_Cons:
  "flines (t # ts) = (if t = [] then flines ts else tabfix t @ NL # flines ts)"
  by (simp add: flines_def)

lemma flines_head:
  "\<forall>t \<in> set ts. NL \<notin> set t \<Longrightarrow> flines ts = [] \<or> hd (flines ts) \<noteq> NL"
proof (induction ts)
  case Nil
  then show ?case by (simp add: flines_def)
next
  case (Cons t ts)
  show ?case
  proof (cases "t = []")
    case True
    with Cons show ?thesis by (simp add: flines_Cons)
  next
    case False
    then obtain c cs where t: "tabfix t = c # cs" by (cases "tabfix t") auto
    from Cons.prems have "NL \<notin> set (tabfix t)" by (simp add: tabfix_no_nl)
    with t have "c \<noteq> NL" by auto
    with False t show ?thesis by (simp add: flines_Cons)
  qed
qed

lemma flines_no_double:
  "\<forall>t \<in> set ts. NL \<notin> set t \<Longrightarrow> \<not> contains_sub [NL, NL] (flines ts)"
proof (induction ts)
  case Nil
  then show ?case by (simp add: flines_def)
next
  case (Cons t ts)
  then have IH: "\<not> contains_sub [NL, NL] (flines ts)" by simp
  from Cons.prems have hd: "flines ts = [] \<or> hd (flines ts) \<noteq> NL"
    by (intro flines_head) simp
  from Cons.prems have nonl: "NL \<notin> set (tabfix t)" by (simp add: tabfix_no_nl)
  have "\<not> contains_sub [NL, NL] (NL # flines ts)"
    using IH hd by (cases "flines ts") auto
  then show ?case
    using IH contains_nl_skip [OF nonl] by (simp add: flines_Cons)
qed

lemma normal_no_double:
  assumes "\<forall>t \<in> set ts. NL \<notin> set t"
  shows "\<not> contains_sub [NL, NL] (lead ts @ flines ts)"
proof -
  have a: "\<not> contains_sub [NL, NL] (flines ts)" by (rule flines_no_double [OF assms])
  have b: "flines ts = [] \<or> hd (flines ts) \<noteq> NL" by (rule flines_head [OF assms])
  have "\<not> contains_sub [NL, NL] (NL # flines ts)"
    using a b by (cases "flines ts") auto
  with a show ?thesis by (auto simp: lead_def split: list.splits)
qed

lemma set_py_strip: "set (py_strip s) \<subseteq> set s"
  unfolding py_strip_def by (auto dest!: set_dropWhileD)

lemma kept_texts_no_nl:
  "\<forall>p \<in> set paras. NL \<notin> set p \<Longrightarrow> \<forall>t \<in> set (kept_texts paras). NL \<notin> set t"
  using set_py_strip by (fastforce simp: kept_texts_def)

lemma read_word_doc_closed_form:
  assumes "\<forall>p \<in> set paras. NL \<notin> set p"
  shows "read_word_doc (Inr paras) = Some (lead (kept_texts paras) @ flines (kept_texts paras))"
  using replace_collapse_False [OF kept_texts_no_nl [OF assms]]
  by (simp add: read_word_doc_def loop_collapse kept_texts_def)

lemma splitlines_acc_line:
  "NL \<notin> set l \<Longrightarrow> splitlines_acc cur (l @ NL # rest) = (cur @ l) # splitlines_acc [] rest"
  by (induction l arbitrary: cur) auto

lemma splitlines_flines:
  "\<forall>t \<in> set ts. NL \<notin> set t \<Longrightarrow> splitlines_acc [] (flines ts) = nonempty_lines ts"
proof (induction ts)
  case Nil
  then show ?case by (simp add: flines_def nonempty_lines_def)
next
  case (Cons t ts)
  from Cons.prems have nonl: "NL \<notin> set (tabfix t)" by (simp add: tabfix_no_nl)
  from Cons have IH: "splitlines_acc [] (flines ts) = nonempty_lines ts" by simp
  show ?case
    using IH splitlines_acc_line [OF nonl, of "[]" "flines ts"]
    by (simp add: flines_Cons nonempty_lines_def)
qed

lemma splitlines_normal:
  assumes "\<forall>t \<in> set ts. NL \<notin> set t"
  shows "splitlines (lead ts @ flines ts) = map (\<lambda>c. []) (lead ts) @ nonempty_lines ts"
  using splitlines_flines [OF assms]
  by (auto simp: splitlines_def lead_def split: list.splits)

lemma py_strip_ends:
  "py_strip s = [] \<or> (\<not> is_space (hd (py_strip s)) \<and> \<not> is_space (last (py_strip s)))"
proof (cases "py_strip s = []")
  case True
  then show ?thesis by simp
next
  case False
  define a where "a = dropWhile is_space s"
  define b where "b = dropWhile is_space (rev a)"
  have s: "py_strip s = rev b" by (simp add: py_strip_def a_def b_def)
  with False have b: "b \<noteq> []" by simp
  then have hb: "\<not> is_space (hd b)" unfolding b_def by (rule hd_dropWhile)
  have "rev a = takeWhile is_space (rev a) @ b" by (simp add: b_def)
  then have "a = rev b @ rev (takeWhile is_space (rev a))"
    by (metis rev_append rev_rev_ident)
  with b have "hd a = hd (rev b)" by (metis hd_append2 rev_is_Nil_conv)
  moreover have "a \<noteq> []" using b b_def by auto
  then have "\<not> is_space (hd a)" unfolding a_def by (rule hd_dropWhile)
  ultimately have "\<not> is_space (hd (rev b))" by simp
  moreover have "last (rev b) = hd b" using b by (simp add: last_rev)
  ultimately show ?thesis using s hb by simp
qed

lemma py_strip_fix:
  assumes "x = [] \<or> (\<not> is_space (hd x) \<and> \<not> is_space (last x))"
  shows "py_strip x = x"
proof (cases "x = []")
  case True
  then show ?thesis by (simp add: py_strip_def)
next
  case False
  with assms have h: "\<not> is_space (hd x)" and l: "\<not> is_space (last x)" by simp_all
  from h have 1: "dropWhile is_space x = x" by (simp add: dropWhile_eq_self_iff)
  from l False have "\<not> is_space (hd (rev x))" by (simp add: hd_rev)
  then have 2: "dropWhile is_space (rev x) = rev x" by (simp add: dropWhile_eq_self_iff)
  show ?thesis by (simp add: py_strip_def 1 2)
qed

lemma is_space_tab: "is_space TAB"
  by (simp add: is_space_def)

lemma py_strip_tabfix: "py_strip (tabfix (py_strip p)) = tabfix (py_strip p)"
proof (rule py_strip_fix)
  let ?x = "py_strip p"
  show "tabfix ?x = [] \<or> (\<not> is_space (hd (tabfix ?x)) \<and> \<not> is_space (last (tabfix ?x)))"
  proof (cases "?x = []")
    case True
    then show ?thesis by simp
  next
    case False
    with py_strip_ends [of p] have h: "\<not> is_space (hd ?x)" and l: "\<not> is_space (last ?x)"
      by simp_all
    from h is_space_tab have "hd ?x \<noteq> TAB" by metis
    then have "hd (tabfix ?x) = hd ?x" using False by (simp add: tabfix_def hd_map)
    moreover from l is_space_tab have "last ?x \<noteq> TAB" by metis
    then have "last (tabfix ?x) = last ?x" using False by (simp add: tabfix_def last_map)
    ultimately show ?thesis using h l by simp
  qed
qed

lemma prefix_map_inj:
  "\<forall>c \<in> set pat. \<forall>x. f x = c \<longleftrightarrow> x = c \<Longrightarrow> prefix pat (map f xs) \<longleftrightarrow> prefix pat xs"
proof (induction pat arbitrary: xs)
  case Nil
  then show ?case by simp
next
  case (Cons a pat)
  from Cons.prems have fa: "\<And>x. f x = a \<longleftrightarrow> x = a" by simp
  from Cons.prems have rest: "\<forall>c \<in> set pat. \<forall>x. f x = c \<longleftrightarrow> x = c" by simp
  show ?case
  proof (cases xs)
    case Nil
    then show ?thesis by simp
  next
    case (Cons y ys)
    have "a = f y \<longleftrightarrow> a = y" using fa [of y] by auto
    then show ?thesis using Cons Cons.IH [OF rest, of ys] by simp
  qed
qed

lemma contains_sub_map_inj:
  assumes "\<forall>c \<in> set pat. \<forall>x. f x = c \<longleftrightarrow> x = c"
  shows "contains_sub pat (map f xs) \<longleftrightarrow> contains_sub pat xs"
proof (induction xs)
  case Nil
  then show ?case by simp
next
  case (Cons x xs)
  have "prefix pat (f x # map f xs) \<longleftrightarrow> prefix pat (x # xs)"
    using prefix_map_inj [OF assms, of "x # xs"] by simp
  with Cons show ?case by simp
qed

lemma dots_search_tabfix: "dots_search (tabfix t) = dots_search t"
  unfolding dots_search_def tabfix_def by (rule contains_sub_map_inj) simp

lemma is_cn_numeral_tabfix: "is_cn_numeral (if c = TAB then SPC else c) = is_cn_numeral c"
  by (simp add: is_cn_numeral_def)

lemma page_num_match_tabfix: "page_num_match (tabfix t) = page_num_match t"
proof (cases t)
  case Nil
  then show ?thesis by simp
next
  case (Cons c cs)
  let ?f = "\<lambda>c. if c = TAB then SPC else c"
  have comp: "is_cn_numeral \<circ> ?f = is_cn_numeral"
    by (rule ext) (simp add: is_cn_numeral_def)
  have tw: "takeWhile is_cn_numeral (map ?f cs) = map ?f (takeWhile is_cn_numeral cs)"
    by (simp add: takeWhile_map comp)
  have dw: "dropWhile is_cn_numeral (map ?f cs) = map ?f (dropWhile is_cn_numeral cs)"
    by (simp add: dropWhile_map comp)
  have c: "?f c = 31532 \<longleftrightarrow> c = 31532" by simp
  have hd: "(case map ?f ds of [] \<Rightarrow> False | d # _ \<Rightarrow> d = 26465)
            = (case ds of [] \<Rightarrow> False | d # _ \<Rightarrow> d = 26465)" for ds
    by (cases ds) auto
  show ?thesis
    using c unfolding Cons tabfix_def page_num_match_def by (simp add: tw dw hd)
qed

lemma keep_text_tabfix: "keep_text (tabfix t) = keep_text t"
  by (simp add: keep_text_def dots_search_tabfix page_num_match_tabfix)

lemma keep_text_Nil: "keep_text []"
  by (simp add: keep_text_def dots_search_def page_num_match_def)

lemma tabfix_idem: "tabfix (tabfix t) = tabfix t"
  by (simp add: tabfix_def)

lemma nonempty_lines_idem: "nonempty_lines (nonempty_lines ts) = nonempty_lines ts"
  by (induction ts) (simp_all add: nonempty_lines_def tabfix_idem)

lemma flines_nonempty_lines: "flines ts = concat (map (\<lambda>l. l @ [NL]) (nonempty_lines ts))"
  by (simp add: flines_def nonempty_lines_def)

lemma lead_nonempty_lines: "lead (nonempty_lines ts) = []"
proof (cases "nonempty_lines ts")
  case Nil
  then show ?thesis by (simp add: lead_def)
next
  case (Cons l ls)
  then have "l \<in> set (nonempty_lines ts)" by simp
  then have "l \<noteq> []" by (simp add: nonempty_lines_def)
  with Cons show ?thesis by (simp add: lead_def)
qed

lemma lead_cases: "lead ts = [] \<or> lead ts = [NL]"
  by (simp add: lead_def split: list.splits)

lemma lead_relines: "lead (relines ts) = lead ts"
  using lead_cases [of ts] lead_nonempty_lines [of ts]
  by (auto simp: relines_def) (simp add: lead_def)

lemma flines_relines: "flines (relines ts) = flines ts"
proof -
  have "nonempty_lines (relines ts) = nonempty_lines (nonempty_lines ts)"
    using lead_cases [of ts] by (auto simp: relines_def) (simp add: nonempty_lines_def)
  then show ?thesis by (simp add: flines_nonempty_lines nonempty_lines_idem)
qed

lemma kept_texts_props:
  "t \<in> set (kept_texts paras) \<Longrightarrow> keep_text t \<and> py_strip (tabfix t) = tabfix t"
  by (auto simp: kept_texts_def py_strip_tabfix)

lemma relines_elem:
  "l \<in> set (relines ts) \<Longrightarrow> l = [] \<or> (\<exists>t \<in> set ts. l = tabfix t)"
  by (auto simp: relines_def nonempty_lines_def)

lemma kept_texts_relines: "kept_texts (relines (kept_texts paras)) = relines (kept_texts paras)"
proof -
  let ?R = "relines (kept_texts paras)"
  have el: "py_strip l = l \<and> keep_text l" if "l \<in> set ?R" for l
  proof -
    from relines_elem [OF that] show ?thesis
    proof
      assume "l = []"
      then show ?thesis by (simp add: keep_text_Nil py_strip_def)
    next
      assume "\<exists>t \<in> set (kept_texts paras). l = tabfix t"
      then obtain t where "t \<in> set (kept_texts paras)" "l = tabfix t" by blast
      with kept_texts_props [of t paras] show ?thesis by (simp add: keep_text_tabfix)
    qed
  qed
  have "map py_strip ?R = ?R" using el by (simp add: map_idI)
  moreover have "filter keep_text ?R = ?R" using el by (simp add: filter_id_conv)
  ultimately show ?thesis by (simp add: kept_texts_def)
qed

lemma relines_no_nl:
  "\<forall>t \<in> set ts. NL \<notin> set t \<Longrightarrow> \<forall>l \<in> set (relines ts). NL \<notin> set l"
  by (auto dest!: relines_elem simp: tabfix_no_nl)

text \<open>
  With \<open>str.split\<close> in the place of \<open>str.splitlines\<close> normalisation is idempotent
  too, but for the empty text: it splits into one empty paragraph, which normalises to
  a single line terminator.
\<close>

lemma split_sep_acc_line:
  "NL \<notin> set l \<Longrightarrow> split_sep_acc cur (l @ NL # rest) = (cur @ l) # split_sep_acc [] rest"
  by (induction l arbitrary: cur) auto

lemma split_sep_flines:
  "\<forall>t \<in> set ts. NL \<notin> set t \<Longrightarrow> split_sep_acc [] (flines ts) = nonempty_lines ts @ [[]]"
proof (induction ts)
  case Nil
  then show ?case by (simp add: flines_def nonempty_lines_def)
next
  case (Cons t ts)
  from Cons.prems have nonl: "NL \<notin> set (tabfix t)" by (simp add: tabfix_no_nl)
  from Cons have IH: "split_sep_acc [] (flines ts) = nonempty_lines ts @ [[]]" by simp
  show ?case
    using IH split_sep_acc_line [OF nonl, of "[]" "flines ts"]
    by (simp add: flines_Cons nonempty_lines_def)
qed

lemma split_sep_normal:
  assumes "\<forall>t \<in> set ts. NL \<notin> set t"
  shows "split_sep (lead ts @ flines ts) = relines ts @ [[]]"
  using split_sep_flines [OF assms] lead_cases [of ts]
  by (auto simp: split_sep_def relines_def)

lemma kept_texts_append: "kept_texts (xs @ ys) = kept_texts xs @ kept_texts ys"
  by (simp add: kept_texts_def)

lemma kept_texts_blank: "kept_texts [[]] = [[]]"
  by (simp add: kept_texts_def keep_text_Nil py_strip_def)

lemma flines_blank_last: "flines (xs @ [[]]) = flines xs"
  by (simp add: flines_def)

lemma lead_blank_last: "lead (xs @ [[]]) = (if xs = [] then [NL] else lead xs)"
  by (cases xs) (simp_all add: lead_def)

lemma relines_Nil_iff: "relines ts = [] \<longleftrightarrow> lead ts @ flines ts = []"
  by (auto simp: relines_def flines_nonempty_lines)

lemma read_word_doc_idempotent_split_sep:
  assumes "\<forall>p \<in> set paras. NL \<notin> set p"
  shows "\<exists>out. read_word_doc (Inr paras) = Some out \<and>
               read_word_doc (Inr (split_sep out)) = Some (if out = [] then [NL] else out)"
proof -
  let ?ts = "kept_texts paras"
  let ?out = "lead ?ts @ flines ?ts"
  let ?R = "relines ?ts @ [[]]"
  have ts: "\<forall>t \<in> set ?ts. NL \<notin> set t" by (rule kept_texts_no_nl [OF assms])
  have 1: "read_word_doc (Inr paras) = Some ?out" by (rule read_word_doc_closed_form [OF assms])
  have 2: "split_sep ?out = ?R" by (rule split_sep_normal [OF ts])
  have nonl: "\<forall>l \<in> set ?R. NL \<notin> set l" using relines_no_nl [OF ts] by simp
  have k: "kept_texts ?R = ?R"
    by (simp add: kept_texts_append kept_texts_blank kept_texts_relines)
  have "read_word_doc (Inr ?R) = Some (lead (kept_texts ?R) @ flines (kept_texts ?R))"
    by (rule read_word_doc_closed_form [OF nonl])
  then have "read_word_doc (Inr ?R) = Some (if ?out = [] then [NL] else ?out)"
    unfolding k
    by (simp add: lead_blank_last flines_blank_last lead_relines flines_relines relines_Nil_iff)
  with 1 2 show ?thesis by simp
qed

lemma read_word_doc_loop_drops_blank:
  assumes "py_strip para = []" and "full_text \<noteq> []" and "last full_text = [NL]"
  shows "read_word_doc_loop full_text (para # paras) = read_word_doc_loop full_text paras"
  using assms by (simp add: page_num_match_def dots_search_def)

text \<open>
  Claim C8. When no paragraph of the raw document contains a line terminator, the
  normalised document exists and nowhere has two line terminators in a row. The loop
  drops an empty paragraph whenever the output kept so far ends in a blank line, and the
  last pass collapses the doubled terminators that remain.
\<close>

theorem C8_no_doubled_line_terminator:
  assumes "\<forall>p \<in> set paras. NL \<notin> set p"
  shows "(\<exists>out. read_word_doc (Inr paras) = Some out \<and> \<not> contains_sub [NL, NL] out) \<and>
         (\<forall>full_text para rest.
            py_strip para = [] \<and> full_text \<noteq> [] \<and> last full_text = [NL] \<longrightarrow>
            read_word_doc_loop full_text (para # rest) = read_word_doc_loop full_text rest)"
  using read_word_doc_closed_form [OF assms] normal_no_double [OF kept_texts_no_nl [OF assms]]
    read_word_doc_loop_drops_blank
  by simp

theorem C8_no_doubled_line_terminator_witness:
  "read_word_doc (Inr [[97], [], [], [98, TAB, 99], [], [100]])
     = Some [97, NL, 98, SPC, 99, NL, 100, NL] \<and>
   \<not> contains_sub [NL, NL] [97, NL, 98, SPC, 99, NL, 100, NL]"
proof -
  have h: "\<forall>p \<in> set [[97], [], [], [98, TAB, 99], [], [100::nat]]. NL \<notin> set p" by simp
  from C8_no_doubled_line_terminator [OF h]
  obtain out where o: "read_word_doc (Inr [[97], [], [], [98, TAB, 99], [], [100]]) = Some out"
    and n: "\<not> contains_sub [NL, NL] out" by blast
  have "read_word_doc (Inr [[97], [], [], [98, TAB, 99], [], [100]])
        = Some [97, NL, 98, SPC, 99, NL, 100, NL]"
    by (simp add: read_word_doc_def py_strip_def is_space_def page_num_match_def
        dots_search_def is_cn_numeral_def)
  with o n show ?thesis by simp
qed

text \<open>
  Claim C7. Normalisation is idempotent: when no paragraph of the raw document contains
  a line terminator, splitting the normalised text on its line terminators and
  normalising the lines again gives the same text.
\<close>

theorem C7_normalisation_idempotent:
  assumes "\<forall>p \<in> set paras. NL \<notin> set p"
  shows "\<exists>out. read_word_doc (Inr paras) = Some out \<and>
               read_word_doc (Inr (splitlines out)) = Some out"
proof -
  let ?ts = "kept_texts paras"
  let ?out = "lead ?ts @ flines ?ts"
  have ts: "\<forall>t \<in> set ?ts. NL \<notin> set t" by (rule kept_texts_no_nl [OF assms])
  have 1: "read_word_doc (Inr paras) = Some ?out" by (rule read_word_doc_closed_form [OF assms])
  have 2: "splitlines ?out = relines ?ts"
    using splitlines_normal [OF ts] by (simp add: relines_def)
  have "read_word_doc (Inr (relines ?ts))
        = Some (lead (kept_texts (relines ?ts)) @ flines (kept_texts (relines ?ts)))"
    by (rule read_word_doc_closed_form [OF relines_no_nl [OF ts]])
  then have "read_word_doc (Inr (relines ?ts)) = Some ?out"
    by (simp add: kept_texts_relines lead_relines flines_relines)
  with 1 2 show ?thesis by simp
qed

theorem C7_normalisation_idempotent_witness:
  "read_word_doc (Inr [[], [97, TAB, 98], [], [31532, 19968, 26465], [SPC, 99]])
     = Some [NL, 97, SPC, 98, NL, 99, NL] \<and>
   splitlines [NL, 97, SPC, 98, NL, 99, NL] = [[], [97, SPC, 98], [99]] \<and>
   read_word_doc (Inr [[], [97, SPC, 98], [99]]) = Some [NL, 97, SPC, 98, NL, 99, NL]"
proof -
  have h: "\<forall>p \<in> set [[], [97, TAB, 98], [], [31532, 19968, 26465], [SPC, 99::nat]]. NL \<notin> set p"
    by simp
  from C7_normalisation_idempotent [OF h]
  obtain out where
    o: "read_word_doc (Inr [[], [97, TAB, 98], [], [31532, 19968, 26465], [SPC, 99]]) = Some out"
    and i: "read_word_doc (Inr (splitlines out)) = Some out" by blast
  have v: "read_word_doc (Inr [[], [97, TAB, 98], [], [31532, 19968, 26465], [SPC, 99]])
        = Some [NL, 97, SPC, 98, NL, 99, NL]"
    by (simp add: read_word_doc_def py_strip_def is_space_def page_num_match_def
        dots_search_def is_cn_numeral_def)
  have s: "splitlines [NL, 97, SPC, 98, NL, 99, NL] = [[], [97, SPC, 98], [99]]"
    by (simp add: splitlines_def)
  from o i v s show ?thesis by simp
qed

section \<open>Properties of \<open>process_excel_row\<close>\<close>

text \<open>
  The search finds the first fenced block: the text between the first opening token and
  the first closing token after it.
\<close>

lemma after_first_first:
  assumes "\<forall>i < length pre. \<not> prefix pat (drop i (pre @ pat @ rest))"
  shows "after_first pat (pre @ pat @ rest) = Some rest"
  using assms
proof (induction pre)
  case Nil
  show ?case by (cases pat; cases rest; simp)
next
  case (Cons c pre)
  from Cons.prems have 0: "\<not> prefix pat (c # pre @ pat @ rest)" by force
  have "\<forall>i < length pre. \<not> prefix pat (drop i (pre @ pat @ rest))"
  proof (intro allI impI)
    fix i assume "i < length pre"
    then have "Suc i < length (c # pre)" by simp
    with Cons.prems have "\<not> prefix pat (drop (Suc i) ((c # pre) @ pat @ rest))" by blast
    then show "\<not> prefix pat (drop i (pre @ pat @ rest))" by simp
  qed
  with Cons.IH 0 show ?case by simp
qed

lemma before_first_first:
  assumes "\<forall>i < length body. \<not> prefix pat (drop i (body @ pat @ rest))"
  shows "before_first pat (body @ pat @ rest) = Some body"
  using assms
proof (induction body)
  case Nil
  show ?case by (cases pat; cases rest; simp)
next
  case (Cons c body)
  from Cons.prems have 0: "\<not> prefix pat (c # body @ pat @ rest)" by force
  have "\<forall>i < length body. \<not> prefix pat (drop i (body @ pat @ rest))"
  proof (intro allI impI)
    fix i assume "i < length body"
    then have "Suc i < length (c # body)" by simp
    with Cons.prems have "\<not> prefix pat (drop (Suc i) ((c # body) @ pat @ rest))" by blast
    then show "\<not> prefix pat (drop i (body @ pat @ rest))" by simp
  qed
  with Cons.IH 0 show ?case by simp
qed

lemma fence_search_first_fenced_block:
  assumes "first_fenced_block answer pre body post"
  shows "fence_search answer = Some body"
proof -
  from assms have a: "answer = pre @ fence_open @ (body @ fence_close @ post)"
    unfolding first_fenced_block_def by simp
  from assms have "\<forall>i < length pre. \<not> prefix fence_open (drop i answer)"
    unfolding first_fenced_block_def first_occurrence_def by blast
  then have o: "\<forall>i < length pre. \<not> prefix fence_open (drop i (pre @ fence_open @ (body @ fence_close @ post)))"
    unfolding a .
  from assms have c: "\<forall>i < length body. \<not> prefix fence_close (drop i (body @ fence_close @ post))"
    unfolding first_fenced_block_def first_occurrence_def by blast
  show ?thesis
    unfolding fence_search_def a
    by (simp add: after_first_first [OF o] before_first_first [OF c])
qed

lemma first_occurrence_hd:
  assumes "pat \<noteq> []" and "hd pat \<notin> set pre"
  shows "first_occurrence pat (pre @ pat @ rest) (length pre)"
proof -
  have "\<not> prefix pat (drop i (pre @ pat @ rest))" if "i < length pre" for i
  proof
    assume p: "prefix pat (drop i (pre @ pat @ rest))"
    from that have d: "drop i (pre @ pat @ rest) = pre ! i # drop (Suc i) pre @ pat @ rest"
      by (simp add: Cons_nth_drop_Suc)
    from p d assms(1) have "hd pat = pre ! i" by (cases pat) auto
    with that assms(2) show False by auto
  qed
  then show ?thesis by (simp add: first_occurrence_def)
qed

lemma keys_distinct:
  "k_summary \<noteq> k_clause_id" "k_summary \<noteq> k_clause_text" "k_summary \<noteq> k_error"
  "k_clause_id \<noteq> k_clause_text" "k_clause_id \<noteq> k_error" "k_clause_text \<noteq> k_error"
  "k_clause_id \<noteq> k_summary" "k_clause_text \<noteq> k_summary" "k_error \<noteq> k_summary"
  "k_clause_text \<noteq> k_clause_id" "k_error \<noteq> k_clause_id" "k_error \<noteq> k_clause_text"
  by (simp_all add: k_summary_def k_clause_id_def k_clause_text_def k_error_def ascii_def)

lemma extract_result_dict:
  assumes "get_answer result_json = Inr (PStr answer)"
    and "fence_search answer = Some block"
    and "json_loads environ (py_strip block) = Inr (PDict kvs)"
  shows "extract_result environ result_json = Inr (success_outcome kvs)"
  using assms by (simp add: extract_result_def success_outcome_def)

lemma extract_result_non_dict:
  assumes "get_answer result_json = Inr (PStr answer)"
    and "fence_search answer = Some block"
    and "json_loads environ (py_strip block) = Inr result"
    and "\<forall>kvs. result \<noteq> PDict kvs"
  shows "extract_result environ result_json =
         Inl (AttributeError ([39] @ type_name result @ [39] @ ascii '' object has no attribute ''
                          @ [39] @ ascii ''get'' @ [39]))"
  using assms by (cases result) (simp_all add: extract_result_def)

lemma process_excel_row_extract:
  assumes "build_query row = Inr q"
    and "call_api environ api_url api_auth (build_payload q file_content) sent = (Inr result_json, sent')"
  shows "process_excel_row environ row file_content api_url api_auth sent =
         (case extract_result environ result_json of
            Inl e \<Rightarrow> (failure_outcome e, sent') | Inr outcome \<Rightarrow> (outcome, sent'))"
  using assms by (simp add: process_excel_row_def)

lemma extract_result_cases:
  "(\<exists>e. extract_result environ result_json = Inl e) \<or>
   (\<exists>a kvs. json_loads environ a = Inr (PDict kvs) \<and>
            extract_result environ result_json = Inr (success_outcome kvs))"
proof (cases "extract_result environ result_json")
  case (Inl e)
  then show ?thesis by simp
next
  case (Inr outcome)
  then obtain answer where a: "get_answer result_json = Inr answer"
    by (auto simp: extract_result_def split: sum.splits)
  from Inr a obtain g where g: "re_search answer = Inr (Some g)"
    by (auto simp: extract_result_def split: sum.splits option.splits)
  from Inr a g obtain result where r: "json_loads environ (py_strip g) = Inr result"
    by (auto simp: extract_result_def split: sum.splits)
  from Inr a g r obtain kvs where k: "result = PDict kvs"
    by (cases result) (auto simp: extract_result_def split: sum.splits)
  from a g r k have "extract_result environ result_json = Inr (success_outcome kvs)"
    by (simp add: extract_result_def success_outcome_def)
  with r k show ?thesis by blast
qed

lemma process_excel_row_cases:
  "(\<exists>e. fst (process_excel_row environ row file_content api_url api_auth sent) = failure_outcome e) \<or>
   (\<exists>a kvs. json_loads environ a = Inr (PDict kvs) \<and>
      fst (process_excel_row environ row file_content api_url api_auth sent) = success_outcome kvs)"
proof (cases "build_query row")
  case (Inl e)
  then show ?thesis by (auto simp: process_excel_row_def)
next
  case (Inr q)
  obtain r sent' where c: "call_api environ api_url api_auth (build_payload q file_content) sent = (r, sent')"
    by (cases "call_api environ api_url api_auth (build_payload q file_content) sent")
  show ?thesis
  proof (cases r)
    case (Inl e)
    with Inr c show ?thesis by (auto simp: process_excel_row_def)
  next
    case r: (Inr result_json)
    from extract_result_cases [of environ result_json] show ?thesis
    proof
      assume "\<exists>e. extract_result environ result_json = Inl e"
      with Inr c r show ?thesis by (auto simp: process_excel_row_def)
    next
      assume "\<exists>a kvs. json_loads environ a = Inr (PDict kvs) \<and>
            extract_result environ result_json = Inr (success_outcome kvs)"
      then obtain a kvs where "json_loads environ a = Inr (PDict kvs)"
        and "extract_result environ result_json = Inr (success_outcome kvs)" by blast
      with Inr c r show ?thesis by (auto simp: process_excel_row_def)
    qed
  qed
qed

lemma outcome_keys_failure: "map fst (failure_outcome e) = result_columns"
  by (simp add: failure_outcome_def result_columns_def)

lemma outcome_keys_success: "map fst (success_outcome kvs) = result_columns"
  by (simp add: success_outcome_def result_columns_def)

lemma outcome_keys:
  "map fst (fst (process_excel_row environ row file_content api_url api_auth sent)) = result_columns"
  using process_excel_row_cases [of environ row file_content api_url api_auth sent]
  by (auto simp: outcome_keys_failure outcome_keys_success)

lemma encode_key:
  "py_encode_basestring k_category = [34] @ k_category @ [34]"
  "py_encode_basestring k_content = [34] @ k_content @ [34]"
  "py_encode_basestring k_instructions = [34] @ k_instructions @ [34]"
  by (simp_all add: py_encode_basestring_def escape_char_def k_category_def k_content_def
      k_instructions_def)

lemma build_query_strings:
  assumes "dict_getitem row k_category = Inr (PStr c)"
    and "dict_getitem row k_content = Inr (PStr t)"
    and "dict_getitem row k_instructions = Inr (PStr i)"
  shows "build_query row = Inr (query_text c t i)"
  using assms
  by (simp add: build_query_def json_dumps_def with_key_def newline_indent_def encode_key
      query_text_def numeral_2_eq_2)

lemma example_row_query: "build_query example_row = Inr (query_text [65] [66] [67])"
  by (rule build_query_strings)
     (simp_all add: example_row_def dict_getitem_def k_category_def k_content_def
       k_instructions_def)

lemma service_answering_call:
  "call_api (service_answering answer loads) api_url api_auth payload sent =
     (Inr (PDict [(ascii ''data'', PDict [(ascii ''outputs'', PDict [(ascii ''Answer'', answer)])])]),
      sent @ [\<lparr>req_url = api_url, req_json = payload,
                req_headers = build_headers api_auth, req_timeout = 600\<rparr>])"
  by (simp add: call_api_def service_answering_def)

lemma service_answering_answer:
  "get_answer (PDict [(ascii ''data'', PDict [(ascii ''outputs'', PDict [(ascii ''Answer'', answer)])])])
   = Inr answer"
  by (simp add: get_answer_def dict_getitem_def ascii_def)

text \<open>
  Claim C10. When the request was built and answered, the answer is a text whose fenced
  block (the one the search of line 137 finds) parses as JSON, and the parsed value is
  not a JSON object, \<open>process_excel_row\<close> returns the failure record, with the
  \<open>AttributeError\<close> of the first \<open>get\<close> as its description, and not a success record
  with the sentinels for not extracted.
\<close>

theorem C10_non_object_json_is_failure:
  assumes "build_query row = Inr q"
    and "call_api environ api_url api_auth (build_payload q file_content) sent = (Inr result_json, sent')"
    and "get_answer result_json = Inr (PStr answer)"
    and "fence_search answer = Some block"
    and "json_loads environ (py_strip block) = Inr result"
    and "\<forall>kvs. result \<noteq> PDict kvs"
  shows "fst (process_excel_row environ row file_content api_url api_auth sent) =
           failure_outcome
             (AttributeError ([39] @ type_name result @ [39] @ ascii '' object has no attribute ''
                              @ [39] @ ascii ''get'' @ [39])) \<and>
         fst (process_excel_row environ row file_content api_url api_auth sent) \<noteq>
           [(k_summary, PStr not_extracted), (k_clause_id, PStr not_extracted),
            (k_clause_text, PStr not_extracted), (k_error, PStr [])]"
proof -
  have "extract_result environ result_json =
         Inl (AttributeError ([39] @ type_name result @ [39] @ ascii '' object has no attribute ''
                          @ [39] @ ascii ''get'' @ [39]))"
    by (rule extract_result_non_dict [OF assms(3-6)])
  then have "fst (process_excel_row environ row file_content api_url api_auth sent) =
           failure_outcome
             (AttributeError ([39] @ type_name result @ [39] @ ascii '' object has no attribute ''
                              @ [39] @ ascii ''get'' @ [39]))"
    using process_excel_row_extract [OF assms(1,2)] by simp
  then show ?thesis
    by (simp add: failure_outcome_def processing_failed_def not_extracted_def)
qed

theorem C10_non_object_json_is_failure_witness:
  "fst (process_excel_row
          (service_answering (PStr (ascii ''```json [1] ```''))
             (loads_table [(ascii ''[1]'', PList [PInt 1])]))
          example_row [] [] [] []) =
     [(k_summary, PStr processing_failed), (k_clause_id, PStr processing_failed),
      (k_clause_text, PStr processing_failed),
      (k_error, PStr ([39] @ ascii ''list'' @ [39] @ ascii '' object has no attribute ''
                              @ [39] @ ascii ''get'' @ [39]))]"
proof -
  let ?env = "service_answering (PStr (ascii ''```json [1] ```''))
                (loads_table [(ascii ''[1]'', PList [PInt 1])])"
  have f: "fence_search (ascii ''```json [1] ```'') = Some (ascii '' [1] '')"
    by (simp add: fence_search_def fence_open_def fence_close_def ascii_def)
  have l: "json_loads ?env (py_strip (ascii '' [1] '')) = Inr (PList [PInt 1])"
    by (simp add: service_answering_def loads_table_def py_strip_def ascii_def is_space_def)
  have n: "\<forall>kvs. PList [PInt 1] \<noteq> PDict kvs" by simp
  from C10_non_object_json_is_failure
    [OF example_row_query service_answering_call service_answering_answer f l n]
  show ?thesis by (simp add: failure_outcome_def)
qed

lemma process_excel_row_dict:
  assumes "build_query row = Inr q"
    and "call_api environ api_url api_auth (build_payload q file_content) sent = (Inr result_json, sent')"
    and "get_answer result_json = Inr (PStr answer)"
    and "fence_search answer = Some block"
    and "json_loads environ (py_strip block) = Inr (PDict kvs)"
  shows "process_excel_row environ row file_content api_url api_auth sent = (success_outcome kvs, sent')"
  using process_excel_row_extract [OF assms(1,2)] extract_result_dict [OF assms(3-5)]
  by simp

lemma process_excel_row_loads_error:
  assumes "build_query row = Inr q"
    and "call_api environ api_url api_auth (build_payload q file_content) sent = (Inr result_json, sent')"
    and "get_answer result_json = Inr (PStr answer)"
    and "fence_search answer = Some block"
    and "json_loads environ (py_strip block) = Inl e"
  shows "process_excel_row environ row file_content api_url api_auth sent = (failure_outcome e, sent')"
  using process_excel_row_extract [OF assms(1,2)] assms(3-5)
  by (simp add: extract_result_def)

lemma fence_open_hd: "fence_open \<noteq> []" "hd fence_open = 96" "fence_close \<noteq> []" "hd fence_close = 96"
  by (simp_all add: fence_open_def fence_close_def ascii_def)

lemma first_fenced_block_plain:
  assumes "96 \<notin> set pre" and "96 \<notin> set body"
  shows "first_fenced_block (pre @ fence_open @ body @ fence_close @ post) pre body post"
  unfolding first_fenced_block_def
  using first_occurrence_hd [of fence_open pre "body @ fence_close @ post"]
        first_occurrence_hd [of fence_close body post] assms
  by (simp add: fence_open_hd)

lemma py_strip_example: "py_strip ([NL] @ example_object_text @ [NL]) = example_object_text"
  by (simp add: py_strip_def is_space_def example_object_text_def)

text \<open>
  Claim C5 fails as it is worded: an answer may contain a well-formed fenced block whose
  content parses to an object with the three keys and still give the failure record,
  because only the first fenced block is read. In the example the answer is the block
  \<open>```json x ```\<close> followed by the block of the object with the three keys; the group of
  the search is \<open> x \<close>, which \<open>json.loads\<close> refuses.
\<close>

theorem C5_later_block_counterexample:
  "answer_second_block_good =
     (fence_open @ ascii '' x '' @ fence_close) @ (fence_open @ example_object_text @ fence_close) \<and>
   contains_sub (fence_open @ example_object_text @ fence_close) answer_second_block_good \<and>
   loads_table [(example_object_text, example_object)] example_object_text =
     Inr (PDict [(k_summary, PStr [49]), (k_clause_id, PStr [50]), (k_clause_text, PStr [51])]) \<and>
   fst (process_excel_row
          (service_answering (PStr answer_second_block_good)
             (loads_table [(example_object_text, example_object)]))
          example_row [] [] [] []) =
     [(k_summary, PStr processing_failed), (k_clause_id, PStr processing_failed),
      (k_clause_text, PStr processing_failed),
      (k_error, PStr (ascii ''Expecting value: line 1 column 1 (char 0)''))]"
proof -
  let ?env = "service_answering (PStr answer_second_block_good)
                (loads_table [(example_object_text, example_object)])"
  have a: "answer_second_block_good =
     (fence_open @ ascii '' x '' @ fence_close) @ (fence_open @ example_object_text @ fence_close)"
    by (simp add: answer_second_block_good_def)
  have "sublist (fence_open @ example_object_text @ fence_close) answer_second_block_good"
    unfolding a sublist_def
    by (rule exI [of _ "fence_open @ ascii '' x '' @ fence_close"], rule exI [of _ "[]"]) simp
  then have b: "contains_sub (fence_open @ example_object_text @ fence_close) answer_second_block_good"
    by (simp add: contains_sub_sublist)
  have c: "loads_table [(example_object_text, example_object)] example_object_text =
     Inr (PDict [(k_summary, PStr [49]), (k_clause_id, PStr [50]), (k_clause_text, PStr [51])])"
    by (simp add: loads_table_def example_object_def)
  have "first_fenced_block ([] @ fence_open @ ascii '' x '' @ fence_close
          @ (fence_open @ example_object_text @ fence_close)) [] (ascii '' x '')
          (fence_open @ example_object_text @ fence_close)"
    by (rule first_fenced_block_plain) (simp_all add: ascii_def)
  then have f: "fence_search answer_second_block_good = Some (ascii '' x '')"
    using fence_search_first_fenced_block by (simp add: a)
  have l: "json_loads ?env (py_strip (ascii '' x '')) =
           Inl (JSONDecodeError (ascii ''Expecting value: line 1 column 1 (char 0)''))"
    by (simp add: service_answering_def loads_table_def py_strip_def ascii_def is_space_def
        example_object_text_def)
  have d: "fst (process_excel_row ?env example_row [] [] [] []) =
     [(k_summary, PStr processing_failed), (k_clause_id, PStr processing_failed),
      (k_clause_text, PStr processing_failed),
      (k_error, PStr (ascii ''Expecting value: line 1 column 1 (char 0)''))]"
    using process_excel_row_loads_error
      [OF example_row_query service_answering_call service_answering_answer f l]
    by (simp add: failure_outcome_def)
  from a b c d show ?thesis by blast
qed

text \<open>
  Claim C5, as the code has it: the block that counts is the first fenced block. When the request
  was built and answered, and the answer is a text in which the first \<open>```json\<close> is
  followed by \<open>body\<close> and the first \<open>```\<close> after that token, and \<open>body\<close>, stripped, parses
  to a JSON object that has the three keys, \<open>process_excel_row\<close> returns the success
  record carrying exactly the three values, with the empty string under \<open>error\<close>,
  whatever text stands before the block and after it.
\<close>

theorem C5_first_fenced_object_round_trip:
  assumes "build_query row = Inr q"
    and "call_api environ api_url api_auth (build_payload q file_content) sent = (Inr result_json, sent')"
    and "get_answer result_json = Inr (PStr answer)"
    and "first_fenced_block answer pre body post"
    and "json_loads environ (py_strip body) = Inr (PDict kvs)"
    and "map_of kvs k_summary = Some summary"
    and "map_of kvs k_clause_id = Some clause_id"
    and "map_of kvs k_clause_text = Some clause_text"
  shows "fst (process_excel_row environ row file_content api_url api_auth sent) =
           [(k_summary, summary), (k_clause_id, clause_id), (k_clause_text, clause_text),
            (k_error, PStr [])]"
  using process_excel_row_dict [OF assms(1-3) fence_search_first_fenced_block [OF assms(4)] assms(5)]
    assms(6-8)
  by (simp add: success_outcome_def)

theorem C5_first_fenced_object_round_trip_witness:
  "fst (process_excel_row
          (service_answering (PStr answer_first_block_good)
             (loads_table [(example_object_text, example_object)]))
          example_row [] [] [] []) =
     [(k_summary, PStr [49]), (k_clause_id, PStr [50]), (k_clause_text, PStr [51]),
      (k_error, PStr [])]"
proof -
  let ?env = "service_answering (PStr answer_first_block_good)
                (loads_table [(example_object_text, example_object)])"
  have "first_fenced_block
          (ascii ''Answer: '' @ fence_open @ ([NL] @ example_object_text @ [NL]) @ fence_close
           @ (ascii '' or '' @ fence_open @ ascii '' x '' @ fence_close))
          (ascii ''Answer: '') ([NL] @ example_object_text @ [NL])
          (ascii '' or '' @ fence_open @ ascii '' x '' @ fence_close)"
    by (rule first_fenced_block_plain) (simp_all add: ascii_def example_object_text_def)
  then have f: "first_fenced_block answer_first_block_good
          (ascii ''Answer: '') ([NL] @ example_object_text @ [NL])
          (ascii '' or '' @ fence_open @ ascii '' x '' @ fence_close)"
    by (simp add: answer_first_block_good_def)
  have l: "json_loads ?env (py_strip ([NL] @ example_object_text @ [NL])) =
           Inr (PDict [(k_summary, PStr [49]), (k_clause_id, PStr [50]), (k_clause_text, PStr [51])])"
    unfolding py_strip_example
    by (simp add: service_answering_def loads_table_def example_object_def)
  have 1: "map_of [(k_summary, PStr [49]), (k_clause_id, PStr [50]), (k_clause_text, PStr [51])]
             k_summary = Some (PStr [49])" by simp
  have 2: "map_of [(k_summary, PStr [49]), (k_clause_id, PStr [50]), (k_clause_text, PStr [51])]
             k_clause_id = Some (PStr [50])" by (simp add: keys_distinct)
  have 3: "map_of [(k_summary, PStr [49]), (k_clause_id, PStr [50]), (k_clause_text, PStr [51])]
             k_clause_text = Some (PStr [51])" by (simp add: keys_distinct)
  show ?thesis
    by (rule C5_first_fenced_object_round_trip
        [OF example_row_query service_answering_call service_answering_answer f l 1 2 3])
qed

text \<open>
  Claim C6 fails as it is worded: the answer \<open>```json```json{}```\<close> contains the fenced
  block \<open>```json{}```\<close>, which parses to the empty object, and gives the failure record:
  the first \<open>```json\<close> is closed by the first three backquotes after it, those of the
  second \<open>```json\<close>, so the group of the search is the empty text.
\<close>

theorem C6_empty_group_counterexample:
  "answer_empty_then_object = fence_open @ (fence_open @ ascii ''{}'' @ fence_close) \<and>
   contains_sub (fence_open @ ascii ''{}'' @ fence_close) answer_empty_then_object \<and>
   loads_table [(ascii ''{}'', PDict [])] (ascii ''{}'') = Inr (PDict []) \<and>
   fst (process_excel_row
          (service_answering (PStr answer_empty_then_object)
             (loads_table [(ascii ''{}'', PDict [])]))
          example_row [] [] [] []) =
     [(k_summary, PStr processing_failed), (k_clause_id, PStr processing_failed),
      (k_clause_text, PStr processing_failed),
      (k_error, PStr (ascii ''Expecting value: line 1 column 1 (char 0)''))]"
proof -
  let ?env = "service_answering (PStr answer_empty_then_object)
                (loads_table [(ascii ''{}'', PDict [])])"
  have a: "answer_empty_then_object = fence_open @ (fence_open @ ascii ''{}'' @ fence_close)"
    by (simp add: answer_empty_then_object_def)
  have "sublist (fence_open @ ascii ''{}'' @ fence_close) answer_empty_then_object"
    unfolding a sublist_def
    by (rule exI [of _ fence_open], rule exI [of _ "[]"]) simp
  then have b: "contains_sub (fence_open @ ascii ''{}'' @ fence_close) answer_empty_then_object"
    by (simp add: contains_sub_sublist)
  have c: "loads_table [(ascii ''{}'', PDict [])] (ascii ''{}'') = Inr (PDict [])"
    by (simp add: loads_table_def)
  have f: "fence_search answer_empty_then_object = Some []"
    by (simp add: answer_empty_then_object_def fence_search_def fence_open_def fence_close_def
        ascii_def)
  have l: "json_loads ?env (py_strip []) =
           Inl (JSONDecodeError (ascii ''Expecting value: line 1 column 1 (char 0)''))"
    by (simp add: service_answering_def loads_table_def py_strip_def ascii_def)
  have d: "fst (process_excel_row ?env example_row [] [] [] []) =
     [(k_summary, PStr processing_failed), (k_clause_id, PStr processing_failed),
      (k_clause_text, PStr processing_failed),
      (k_error, PStr (ascii ''Expecting value: line 1 column 1 (char 0)''))]"
    using process_excel_row_loads_error
      [OF example_row_query service_answering_call service_answering_answer f l]
    by (simp add: failure_outcome_def)
  from a b c d show ?thesis by blast
qed

text \<open>
  Claim C6, as the code has it: the block that counts is the first fenced block. When the request
  was built and answered, and the answer is a text in which the first \<open>```json\<close> is
  followed by \<open>body\<close> and the first \<open>```\<close> after that token, and \<open>body\<close>, stripped, parses
  to a JSON object, a key the object lacks is no failure: its field is the sentinel for
  not extracted and \<open>error\<close> is the empty string. For the empty object all three fields
  are the sentinel.
\<close>

theorem C6_first_fenced_empty_object:
  assumes "build_query row = Inr q"
    and "call_api environ api_url api_auth (build_payload q file_content) sent = (Inr result_json, sent')"
    and "get_answer result_json = Inr (PStr answer)"
    and "first_fenced_block answer pre body post"
    and "json_loads environ (py_strip body) = Inr (PDict kvs)"
  shows "(kvs = [] \<longrightarrow>
            fst (process_excel_row environ row file_content api_url api_auth sent) =
              [(k_summary, PStr not_extracted), (k_clause_id, PStr not_extracted),
               (k_clause_text, PStr not_extracted), (k_error, PStr [])]) \<and>
         (\<forall>k \<in> set [k_summary, k_clause_id, k_clause_text].
            map_of kvs k = None \<longrightarrow>
            dict_getitem (fst (process_excel_row environ row file_content api_url api_auth sent)) k
              = Inr (PStr not_extracted)) \<and>
         dict_getitem (fst (process_excel_row environ row file_content api_url api_auth sent)) k_error
           = Inr (PStr [])"
  using process_excel_row_dict [OF assms(1-3) fence_search_first_fenced_block [OF assms(4)] assms(5)]
  by (simp add: success_outcome_def dict_getitem_def keys_distinct)

theorem C6_first_fenced_empty_object_witness:
  "fst (process_excel_row
          (service_answering (PStr answer_empty_object_first)
             (loads_table [(ascii ''{}'', PDict [])]))
          example_row [] [] [] []) =
     [(k_summary, PStr not_extracted), (k_clause_id, PStr not_extracted),
      (k_clause_text, PStr not_extracted), (k_error, PStr [])]"
proof -
  let ?env = "service_answering (PStr answer_empty_object_first)
                (loads_table [(ascii ''{}'', PDict [])])"
  have "first_fenced_block
          ([] @ fence_open @ ascii '' {} '' @ fence_close
           @ (fence_open @ ascii '' x '' @ fence_close))
          [] (ascii '' {} '') (fence_open @ ascii '' x '' @ fence_close)"
    by (rule first_fenced_block_plain) (simp_all add: ascii_def)
  then have f: "first_fenced_block answer_empty_object_first
          [] (ascii '' {} '') (fence_open @ ascii '' x '' @ fence_close)"
    by (simp add: answer_empty_object_first_def)
  have l: "json_loads ?env (py_strip (ascii '' {} '')) = Inr (PDict [])"
    by (simp add: service_answering_def loads_table_def py_strip_def ascii_def is_space_def)
  from C6_first_fenced_empty_object
    [OF example_row_query service_answering_call service_answering_answer f l]
  show ?thesis by simp
qed

lemma encode_plain:
  "\<forall>ch \<in> set s. 32 \<le> ch \<and> ch \<noteq> 34 \<and> ch \<noteq> 92 \<Longrightarrow> py_encode_basestring s = [34] @ s @ [34]"
proof -
  assume a: "\<forall>ch \<in> set s. 32 \<le> ch \<and> ch \<noteq> 34 \<and> ch \<noteq> 92"
  have "concat (map escape_char s) = s" using a
    by (induction s) (auto simp: escape_char_def)
  then show ?thesis by (simp add: py_encode_basestring_def)
qed

lemma hex_val_digit: "d < 16 \<Longrightarrow> hex_val (hex_digit d) = Some d"
  by (auto simp: hex_val_def hex_digit_def)

lemma json_string_chars_escape:
  "json_string_chars Plain (escape_char c @ rest) = map_option ((#) c) (json_string_chars Plain rest)"
proof -
  consider "c = 34" | "c = 92" | "c = 10" | "c = 13" | "c = 9" | "c = 8" | "c = 12"
    | "c < 32" "c \<noteq> 10" "c \<noteq> 13" "c \<noteq> 9" "c \<noteq> 8" "c \<noteq> 12"
    | "32 \<le> c" "c \<noteq> 34" "c \<noteq> 92"
    by linarith
  then show ?thesis
  proof cases
    case 8
    have z: "hex_val 48 = Some 0" by (simp add: hex_val_def)
    have d: "c div 16 < 16" "c mod 16 < 16" using 8(1) by simp_all
    have v: "c div 16 * 16 + c mod 16 = c" by simp
    have e: "escape_char c = [92, 117, 48, 48, hex_digit (c div 16), hex_digit (c mod 16)]"
      using 8 by (simp add: escape_char_def)
    show ?thesis
      unfolding e
      by (simp add: z hex_val_digit [OF d(1)] hex_val_digit [OF d(2)] v numeral_3_eq_3)
  next
    case 9
    then show ?thesis by (simp add: escape_char_def)
  qed (simp_all add: escape_char_def short_escape_def)
qed

lemma json_string_chars_concat:
  "json_string_chars Plain (concat (map escape_char s) @ [34]) = Some s"
  by (induction s) (simp_all add: json_string_chars_escape)

lemma json_string_decode_encode: "json_string_decode (py_encode_basestring s) = Some s"
  by (simp add: json_string_decode_def py_encode_basestring_def json_string_chars_concat)

lemma query_text_layout:
  "query_text c t i =
   query_layout (py_encode_basestring c) (py_encode_basestring t) (py_encode_basestring i)"
  by (simp add: query_text_def query_layout_def)

lemma process_excel_row_sent:
  assumes "build_query row = Inr q"
  shows "snd (process_excel_row environ row file_content api_url api_auth sent) =
         sent @ [\<lparr>req_url = api_url, req_json = build_payload q file_content,
                   req_headers = build_headers api_auth, req_timeout = 600\<rparr>]"
  using assms
  by (simp add: process_excel_row_def call_api_def Let_def split: sum.splits prod.splits)

text \<open>
  Claim C9. For a row whose three clause fields are strings, \<open>process_excel_row\<close> sends
  exactly one request, whatever the service answers: to the configured URL, with a
  timeout of 600 seconds, and with the body \<open>{"response_mode": "blocking", "user":
  "haha-shareholder", "inputs": {"Query": q, "File": doc}}\<close>, where \<open>q\<close> is the JSON
  object of the three fields in the order category, clause/content, fill-in
  instructions, indented by two spaces. The literal written for a field is a JSON
  string that reads back as the field, whatever characters the field holds; and a field
  without double quote, backslash or control character, ASCII or not, is written as it
  is between the quotes.
\<close>

theorem C9_request_body:
  assumes "dict_getitem row k_category = Inr (PStr category)"
    and "dict_getitem row k_content = Inr (PStr content)"
    and "dict_getitem row k_instructions = Inr (PStr instructions)"
  shows "snd (process_excel_row environ row file_content api_url api_auth sent) =
           sent @
           [\<lparr>req_url = api_url,
             req_json =
               PDict [(ascii ''response_mode'', PStr (ascii ''blocking'')),
                      (ascii ''user'', PStr (ascii ''haha-shareholder'')),
                      (ascii ''inputs'',
                       PDict [(ascii ''Query'',
                               PStr (query_layout (py_encode_basestring category)
                                       (py_encode_basestring content)
                                       (py_encode_basestring instructions))),
                              (ascii ''File'', PStr file_content)])],
             req_headers =
               [(ascii ''Authorization'', api_auth),
                (ascii ''Content-Type'', ascii ''application/json'')],
             req_timeout = 600\<rparr>] \<and>
         (\<forall>s. json_string_decode (py_encode_basestring s) = Some s) \<and>
         (\<forall>s. (\<forall>ch \<in> set s. 32 \<le> ch \<and> ch \<noteq> 34 \<and> ch \<noteq> 92) \<longrightarrow>
              py_encode_basestring s = [34] @ s @ [34])"
  using process_excel_row_sent [OF build_query_strings [OF assms]] encode_plain
    json_string_decode_encode
  by (simp add: build_payload_def build_headers_def query_text_layout)

theorem C9_request_body_witness:
  "snd (process_excel_row (service_answering PNone (loads_table [])) special_row
          (ascii ''doc'') (ascii ''http://api'') (ascii ''Bearer k'') []) =
     [\<lparr>req_url = ascii ''http://api'',
       req_json =
         PDict [(ascii ''response_mode'', PStr (ascii ''blocking'')),
                (ascii ''user'', PStr (ascii ''haha-shareholder'')),
                (ascii ''inputs'',
                 PDict [(ascii ''Query'',
                         PStr [123, 10, 32, 32, 34, 26465, 27454, 31867, 21035, 34, 58, 32,
                               34, 92, 34, 34, 44,
                               10, 32, 32, 34, 26465, 27454, 47, 20869, 23481, 34, 58, 32,
                               34, 92, 92, 92, 110, 34, 44,
                               10, 32, 32, 34, 22635, 20889, 35828, 26126, 34, 58, 32,
                               34, 92, 117, 48, 48, 48, 49, 26465, 92, 117, 48, 48, 49, 102,
                               127, 34, 10, 125]),
                        (ascii ''File'', PStr (ascii ''doc''))])],
       req_headers =
         [(ascii ''Authorization'', ascii ''Bearer k''),
          (ascii ''Content-Type'', ascii ''application/json'')],
       req_timeout = 600\<rparr>] \<and>
   json_string_decode [34, 92, 117, 48, 48, 48, 49, 26465, 92, 117, 48, 48, 49, 102, 127, 34] =
     Some [1, 26465, 31, 127] \<and>
   py_encode_basestring [26465, 127] = [34, 26465, 127, 34]"
proof -
  have 1: "dict_getitem special_row k_category = Inr (PStr [34])"
    by (simp add: special_row_def dict_getitem_def)
  have 2: "dict_getitem special_row k_content = Inr (PStr [92, 10])"
    by (simp add: special_row_def dict_getitem_def k_category_def k_content_def)
  have 3: "dict_getitem special_row k_instructions = Inr (PStr [1, 26465, 31, 127])"
    by (simp add: special_row_def dict_getitem_def k_category_def k_content_def
        k_instructions_def)
  have q: "query_layout (py_encode_basestring [34]) (py_encode_basestring [92, 10])
             (py_encode_basestring [1, 26465, 31, 127]) =
     [123, 10, 32, 32, 34, 26465, 27454, 31867, 21035, 34, 58, 32,
      34, 92, 34, 34, 44,
      10, 32, 32, 34, 26465, 27454, 47, 20869, 23481, 34, 58, 32,
      34, 92, 92, 92, 110, 34, 44,
      10, 32, 32, 34, 22635, 20889, 35828, 26126, 34, 58, 32,
      34, 92, 117, 48, 48, 48, 49, 26465, 92, 117, 48, 48, 49, 102,
      127, 34, 10, 125]"
    by (simp add: query_layout_def py_encode_basestring_def escape_char_def hex_digit_def
        k_category_def k_content_def k_instructions_def)
  have e: "py_encode_basestring [1, 26465, 31, 127] =
           [34, 92, 117, 48, 48, 48, 49, 26465, 92, 117, 48, 48, 49, 102, 127, 34]"
    by (simp add: py_encode_basestring_def escape_char_def hex_digit_def)
  have p: "\<forall>ch \<in> set [26465, 127::nat]. 32 \<le> ch \<and> ch \<noteq> 34 \<and> ch \<noteq> 92" by simp
  note t = C9_request_body [OF 1 2 3, of "service_answering PNone (loads_table [])"
      "ascii ''doc''" "ascii ''http://api''" "ascii ''Bearer k''" "[]"]
  from t have a: "snd (process_excel_row (service_answering PNone (loads_table [])) special_row
          (ascii ''doc'') (ascii ''http://api'') (ascii ''Bearer k'') []) =
     [\<lparr>req_url = ascii ''http://api'',
       req_json =
         PDict [(ascii ''response_mode'', PStr (ascii ''blocking'')),
                (ascii ''user'', PStr (ascii ''haha-shareholder'')),
                (ascii ''inputs'',
                 PDict [(ascii ''Query'',
                         PStr (query_layout (py_encode_basestring [34])
                                 (py_encode_basestring [92, 10])
                                 (py_encode_basestring [1, 26465, 31, 127]))),
                        (ascii ''File'', PStr (ascii ''doc''))])],
       req_headers =
         [(ascii ''Authorization'', ascii ''Bearer k''),
          (ascii ''Content-Type'', ascii ''application/json'')],
       req_timeout = 600\<rparr>]"
    by simp
  from t have "json_string_decode (py_encode_basestring [1, 26465, 31, 127]) =
               Some [1, 26465, 31, 127]"
    by blast
  then have b: "json_string_decode
                  [34, 92, 117, 48, 48, 48, 49, 26465, 92, 117, 48, 48, 49, 102, 127, 34] =
                Some [1, 26465, 31, 127]"
    unfolding e .
  from t p have "py_encode_basestring [26465, 127] = [34] @ [26465, 127] @ [34]"
    by blast
  then have c: "py_encode_basestring [26465, 127] = [34, 26465, 127, 34]" by simp
  from a [unfolded q] b c show ?thesis by blast
qed

lemma success_outcome_shape: "success_shape (success_outcome kvs)"
  by (simp add: success_shape_def success_outcome_def dict_getitem_def keys_distinct)

lemma failure_outcome_shape: "failure_shape (failure_outcome e)"
  by (simp add: failure_shape_def failure_outcome_def dict_getitem_def keys_distinct is_str_def)

lemma failure_shape_strings:
  assumes "map fst outcome = [k_summary, k_clause_id, k_clause_text, k_error]"
    and "failure_shape outcome"
  shows "all_strings outcome"
proof -
  from assms(1) obtain a b c d where
    o: "outcome = [(k_summary, a), (k_clause_id, b), (k_clause_text, c), (k_error, d)]"
    by (auto simp: map_eq_Cons_conv)
  from assms(2) show ?thesis
    unfolding o
    by (simp add: failure_shape_def all_strings_def dict_getitem_def keys_distinct is_str_def)
qed

lemma both_shapes:
  assumes "map fst outcome = [k_summary, k_clause_id, k_clause_text, k_error]"
  shows "success_shape outcome \<and> failure_shape outcome \<longleftrightarrow>
         outcome = [(k_summary, PStr processing_failed), (k_clause_id, PStr processing_failed),
                    (k_clause_text, PStr processing_failed), (k_error, PStr [])]"
proof -
  from assms obtain a b c d where
    o: "outcome = [(k_summary, a), (k_clause_id, b), (k_clause_text, c), (k_error, d)]"
    by (auto simp: map_eq_Cons_conv)
  show ?thesis
    unfolding o
    by (auto simp: success_shape_def failure_shape_def dict_getitem_def keys_distinct is_str_def)
qed

lemma process_excel_row_paths:
  "(\<exists>e. fst (process_excel_row environ row file_content api_url api_auth sent) = failure_outcome e) \<or>
   (\<exists>q result_json sent' answer block kvs.
      build_query row = Inr q \<and>
      call_api environ api_url api_auth (build_payload q file_content) sent = (Inr result_json, sent') \<and>
      get_answer result_json = Inr (PStr answer) \<and>
      fence_search answer = Some block \<and>
      json_loads environ (py_strip block) = Inr (PDict kvs) \<and>
      fst (process_excel_row environ row file_content api_url api_auth sent) = success_outcome kvs)"
proof (cases "build_query row")
  case (Inl e)
  then show ?thesis by (auto simp: process_excel_row_def)
next
  case q: (Inr q)
  obtain r sent' where c: "call_api environ api_url api_auth (build_payload q file_content) sent = (r, sent')"
    by (cases "call_api environ api_url api_auth (build_payload q file_content) sent")
  show ?thesis
  proof (cases r)
    case (Inl e)
    with q c show ?thesis by (auto simp: process_excel_row_def)
  next
    case r: (Inr result_json)
    note p = process_excel_row_extract [OF q c [unfolded r]]
    show ?thesis
    proof (cases "extract_result environ result_json")
      case (Inl e)
      with p show ?thesis by auto
    next
      case o: (Inr outcome)
      then obtain v where a: "get_answer result_json = Inr v"
        by (auto simp: extract_result_def split: sum.splits)
      from o a obtain block where g: "re_search v = Inr (Some block)"
        by (auto simp: extract_result_def split: sum.splits option.splits)
      then obtain answer where v: "v = PStr answer" and f: "fence_search answer = Some block"
        by (cases v) auto
      from o a g obtain result where l: "json_loads environ (py_strip block) = Inr result"
        by (auto simp: extract_result_def split: sum.splits)
      from o a g l obtain kvs where d: "result = PDict kvs"
        by (cases result) (auto simp: extract_result_def)
      have "extract_result environ result_json = Inr (success_outcome kvs)"
        by (rule extract_result_dict [OF a [unfolded v] f l [unfolded d]])
      with p have "fst (process_excel_row environ row file_content api_url api_auth sent) =
                   success_outcome kvs" by simp
      with q c r a v f l d show ?thesis by blast
    qed
  qed
qed

lemma success_outcome_fields:
  "\<forall>k \<in> set [k_summary, k_clause_id, k_clause_text].
     dict_getitem (success_outcome kvs) k =
       Inr (case map_of kvs k of None \<Rightarrow> PStr not_extracted | Some v \<Rightarrow> v)"
  by (simp add: success_outcome_def dict_getitem_def keys_distinct)

lemma null_example_outcome:
  "fst (process_excel_row
          (service_answering (PStr (fence_open @ example_null_text @ fence_close))
             (loads_table [(example_null_text, PDict [(k_summary, PNone)])]))
          example_row [] [] [] []) =
     [(k_summary, PNone), (k_clause_id, PStr not_extracted),
      (k_clause_text, PStr not_extracted), (k_error, PStr [])]"
proof -
  have f: "fence_search (fence_open @ example_null_text @ fence_close) = Some example_null_text"
    by (simp add: fence_search_def fence_open_def fence_close_def ascii_def
        example_null_text_def)
  have s: "py_strip example_null_text = example_null_text"
    by (simp add: py_strip_def is_space_def example_null_text_def)
  have l: "json_loads (service_answering (PStr (fence_open @ example_null_text @ fence_close))
             (loads_table [(example_null_text, PDict [(k_summary, PNone)])]))
             (py_strip example_null_text) = Inr (PDict [(k_summary, PNone)])"
    unfolding s by (simp add: service_answering_def loads_table_def)
  from process_excel_row_dict
    [OF example_row_query service_answering_call service_answering_answer f l]
  show ?thesis by (simp add: success_outcome_def keys_distinct)
qed

lemma service_failing_outcome:
  "fst (process_excel_row (service_failing e) example_row [] [] [] []) = failure_outcome e"
  using example_row_query
  by (simp add: process_excel_row_def call_api_def service_failing_def)

text \<open>
  Claim C3 as the specification states it fails twice. The answer \<open>```json{"<summary>":
  null}```\<close> gives an outcome whose summary is \<open>None\<close>, not a string. And an exception
  whose description is empty (\<open>RequestException()\<close>) gives the record of the handler with
  the empty string under \<open>error\<close>: a record of both shapes.
\<close>

theorem C3_shape_counterexample:
  "dict_getitem
     (fst (process_excel_row
          (service_answering (PStr (fence_open @ example_null_text @ fence_close))
             (loads_table [(example_null_text, PDict [(k_summary, PNone)])]))
          example_row [] [] [] [])) k_summary = Inr PNone \<and>
   \<not> is_str PNone \<and>
   \<not> all_strings
     (fst (process_excel_row
          (service_answering (PStr (fence_open @ example_null_text @ fence_close))
             (loads_table [(example_null_text, PDict [(k_summary, PNone)])]))
          example_row [] [] [] [])) \<and>
   fst (process_excel_row (service_failing (RequestException [])) example_row [] [] [] []) =
     [(k_summary, PStr processing_failed), (k_clause_id, PStr processing_failed),
      (k_clause_text, PStr processing_failed), (k_error, PStr [])] \<and>
   success_shape
     (fst (process_excel_row (service_failing (RequestException [])) example_row [] [] [] [])) \<and>
   failure_shape
     (fst (process_excel_row (service_failing (RequestException [])) example_row [] [] [] []))"
  unfolding null_example_outcome service_failing_outcome
  by (simp add: dict_getitem_def is_str_def all_strings_def failure_outcome_def
      success_shape_def failure_shape_def keys_distinct)

text \<open>
  Claim C3, as the code has it. Every outcome of \<open>process_excel_row\<close> has the four keys,
  in the order summary, clause id, clause text, error, and the value under \<open>error\<close> is
  always a string. At least one of the two shapes holds, and both hold only for the
  record with the sentinel for processing failed under the three result keys and the
  empty string under \<open>error\<close>. In an outcome of the failure shape all four values are
  strings. An outcome that is not of the failure shape was returned by line 142: the
  request was built and answered, the block found in the answer parsed to a JSON
  object, and each result field is the sentinel for not extracted, when the object
  lacks the key, or the value the object holds under the key, whatever its type.
\<close>

theorem C3_outcome_shape:
  "map fst (fst (process_excel_row environ row file_content api_url api_auth sent))
     = [k_summary, k_clause_id, k_clause_text, k_error] \<and>
   (\<exists>s. dict_getitem (fst (process_excel_row environ row file_content api_url api_auth sent))
          k_error = Inr (PStr s)) \<and>
   (success_shape (fst (process_excel_row environ row file_content api_url api_auth sent)) \<or>
    failure_shape (fst (process_excel_row environ row file_content api_url api_auth sent))) \<and>
   ((success_shape (fst (process_excel_row environ row file_content api_url api_auth sent)) \<and>
     failure_shape (fst (process_excel_row environ row file_content api_url api_auth sent))) =
    (fst (process_excel_row environ row file_content api_url api_auth sent) =
       [(k_summary, PStr processing_failed), (k_clause_id, PStr processing_failed),
        (k_clause_text, PStr processing_failed), (k_error, PStr [])])) \<and>
   (failure_shape (fst (process_excel_row environ row file_content api_url api_auth sent)) \<longrightarrow>
    all_strings (fst (process_excel_row environ row file_content api_url api_auth sent))) \<and>
   (\<not> failure_shape (fst (process_excel_row environ row file_content api_url api_auth sent)) \<longrightarrow>
    (\<exists>q result_json sent' answer block kvs.
       build_query row = Inr q \<and>
       call_api environ api_url api_auth (build_payload q file_content) sent
         = (Inr result_json, sent') \<and>
       get_answer result_json = Inr (PStr answer) \<and>
       fence_search answer = Some block \<and>
       json_loads environ (py_strip block) = Inr (PDict kvs) \<and>
       (\<forall>k \<in> set [k_summary, k_clause_id, k_clause_text].
          dict_getitem (fst (process_excel_row environ row file_content api_url api_auth sent)) k =
            Inr (case map_of kvs k of None \<Rightarrow> PStr not_extracted | Some v \<Rightarrow> v))))"
proof -
  let ?o = "fst (process_excel_row environ row file_content api_url api_auth sent)"
  have 1: "map fst ?o = [k_summary, k_clause_id, k_clause_text, k_error]"
    using outcome_keys [of environ row file_content api_url api_auth sent]
    by (simp add: result_columns_def)
  have 4: "(success_shape ?o \<and> failure_shape ?o) =
           (?o = [(k_summary, PStr processing_failed), (k_clause_id, PStr processing_failed),
                  (k_clause_text, PStr processing_failed), (k_error, PStr [])])"
    by (rule both_shapes [OF 1])
  have 5: "failure_shape ?o \<longrightarrow> all_strings ?o"
    using failure_shape_strings [OF 1] by blast
  from process_excel_row_paths [of environ row file_content api_url api_auth sent]
  show ?thesis
  proof
    assume "\<exists>e. ?o = failure_outcome e"
    then obtain e where o: "?o = failure_outcome e" ..
    have 2: "\<exists>s. dict_getitem ?o k_error = Inr (PStr s)"
      by (simp add: o failure_outcome_def dict_getitem_def keys_distinct)
    have 3: "failure_shape ?o" by (simp add: o failure_outcome_shape)
    from 1 2 3 4 5 show ?thesis by blast
  next
    assume "\<exists>q result_json sent' answer block kvs.
      build_query row = Inr q \<and>
      call_api environ api_url api_auth (build_payload q file_content) sent = (Inr result_json, sent') \<and>
      get_answer result_json = Inr (PStr answer) \<and>
      fence_search answer = Some block \<and>
      json_loads environ (py_strip block) = Inr (PDict kvs) \<and>
      ?o = success_outcome kvs"
    then obtain q result_json sent' answer block kvs where
      c: "build_query row = Inr q"
         "call_api environ api_url api_auth (build_payload q file_content) sent = (Inr result_json, sent')"
         "get_answer result_json = Inr (PStr answer)"
         "fence_search answer = Some block"
         "json_loads environ (py_strip block) = Inr (PDict kvs)"
      and o: "?o = success_outcome kvs" by blast
    have 2: "\<exists>s. dict_getitem ?o k_error = Inr (PStr s)"
      by (simp add: o success_outcome_def dict_getitem_def keys_distinct)
    have 3: "success_shape ?o" by (simp add: o success_outcome_shape)
    have "\<forall>k \<in> set [k_summary, k_clause_id, k_clause_text].
          dict_getitem ?o k = Inr (case map_of kvs k of None \<Rightarrow> PStr not_extracted | Some v \<Rightarrow> v)"
      unfolding o by (rule success_outcome_fields)
    with c have 6: "\<exists>q result_json sent' answer block kvs.
       build_query row = Inr q \<and>
       call_api environ api_url api_auth (build_payload q file_content) sent
         = (Inr result_json, sent') \<and>
       get_answer result_json = Inr (PStr answer) \<and>
       fence_search answer = Some block \<and>
       json_loads environ (py_strip block) = Inr (PDict kvs) \<and>
       (\<forall>k \<in> set [k_summary, k_clause_id, k_clause_text].
          dict_getitem ?o k = Inr (case map_of kvs k of None \<Rightarrow> PStr not_extracted | Some v \<Rightarrow> v))"
      by blast
    from 1 2 3 4 5 6 show ?thesis by blast
  qed
qed

theorem C3_outcome_shape_witness:
  "map fst (fst (process_excel_row
          (service_answering (PStr (fence_open @ example_null_text @ fence_close))
             (loads_table [(example_null_text, PDict [(k_summary, PNone)])]))
          example_row [] [] [] [])) = [k_summary, k_clause_id, k_clause_text, k_error] \<and>
   success_shape (fst (process_excel_row
          (service_answering (PStr (fence_open @ example_null_text @ fence_close))
             (loads_table [(example_null_text, PDict [(k_summary, PNone)])]))
          example_row [] [] [] [])) \<and>
   \<not> failure_shape (fst (process_excel_row
          (service_answering (PStr (fence_open @ example_null_text @ fence_close))
             (loads_table [(example_null_text, PDict [(k_summary, PNone)])]))
          example_row [] [] [] [])) \<and>
   dict_getitem (fst (process_excel_row
          (service_answering (PStr (fence_open @ example_null_text @ fence_close))
             (loads_table [(example_null_text, PDict [(k_summary, PNone)])]))
          example_row [] [] [] [])) k_summary = Inr PNone \<and>
   dict_getitem (fst (process_excel_row
          (service_answering (PStr (fence_open @ example_null_text @ fence_close))
             (loads_table [(example_null_text, PDict [(k_summary, PNone)])]))
          example_row [] [] [] [])) k_clause_id = Inr (PStr not_extracted) \<and>
   failure_shape
     (fst (process_excel_row (service_failing (RequestException (ascii ''Read timed out.'')))
            example_row [] [] [] [])) \<and>
   all_strings
     (fst (process_excel_row (service_failing (RequestException (ascii ''Read timed out.'')))
            example_row [] [] [] []))"
proof -
  let ?env = "service_answering (PStr (fence_open @ example_null_text @ fence_close))
                (loads_table [(example_null_text, PDict [(k_summary, PNone)])])"
  let ?o = "fst (process_excel_row ?env example_row [] [] [] [])"
  let ?p = "fst (process_excel_row (service_failing (RequestException (ascii ''Read timed out.'')))
                   example_row [] [] [] [])"
  note t = C3_outcome_shape [of ?env example_row "[]" "[]" "[]" "[]"]
  note u = C3_outcome_shape [of "service_failing (RequestException (ascii ''Read timed out.''))"
             example_row "[]" "[]" "[]" "[]"]
  from t have k: "map fst ?o = [k_summary, k_clause_id, k_clause_text, k_error]" by blast
  have n: "\<not> failure_shape ?o"
    unfolding null_example_outcome
    by (simp add: failure_shape_def dict_getitem_def)
  from t n have s: "success_shape ?o" by blast
  from t n obtain q result_json sent' answer block kvs where
      c: "build_query example_row = Inr q"
         "call_api ?env [] [] (build_payload q []) [] = (Inr result_json, sent')"
         "get_answer result_json = Inr (PStr answer)"
         "fence_search answer = Some block"
         "json_loads ?env (py_strip block) = Inr (PDict kvs)"
      and f: "\<forall>k \<in> set [k_summary, k_clause_id, k_clause_text].
          dict_getitem ?o k = Inr (case map_of kvs k of None \<Rightarrow> PStr not_extracted | Some v \<Rightarrow> v)"
    by blast
  from c(2) have "result_json =
      PDict [(ascii ''data'', PDict [(ascii ''outputs'',
        PDict [(ascii ''Answer'', PStr (fence_open @ example_null_text @ fence_close))])])]"
    by (simp add: service_answering_call)
  with c(3) have "answer = fence_open @ example_null_text @ fence_close"
    by (simp add: service_answering_answer)
  with c(4) have "block = example_null_text"
    by (simp add: fence_search_def fence_open_def fence_close_def ascii_def
        example_null_text_def)
  with c(5) have kvs: "kvs = [(k_summary, PNone)]"
    by (simp add: service_answering_def loads_table_def py_strip_def is_space_def
        example_null_text_def)
  from f have a: "dict_getitem ?o k_summary = Inr PNone"
    and b: "dict_getitem ?o k_clause_id = Inr (PStr not_extracted)"
    by (simp_all add: kvs keys_distinct)
  have fs: "failure_shape ?p"
    unfolding service_failing_outcome by (rule failure_outcome_shape)
  with u have st: "all_strings ?p" by blast
  from k s n a b fs st show ?thesis by blast
qed

section \<open>Properties of the table of one document\<close>

lemma length_process_rows:
  "length (fst (process_rows environ file_content api_url api_auth rws sent)) = length rws"
proof (induction rws arbitrary: sent)
  case Nil
  then show ?case by simp
next
  case (Cons row rest)
  obtain outcome sent' where p:
    "process_excel_row environ row file_content api_url api_auth sent = (outcome, sent')"
    by (cases "process_excel_row environ row file_content api_url api_auth sent")
  obtain outcomes sent'' where q:
    "process_rows environ file_content api_url api_auth rest sent' = (outcomes, sent'')"
    by (cases "process_rows environ file_content api_url api_auth rest sent'")
  from Cons.IH [of sent'] q have "length outcomes = length rest" by simp
  with p q show ?case by simp
qed

lemma col_pos_append: "c \<notin> set xs \<Longrightarrow> col_pos c (xs @ ys) = length xs + col_pos c ys"
  by (induction xs) auto

lemma result_columns_pos:
  "col_pos k_summary result_columns = 0"
  "col_pos k_clause_id result_columns = 1"
  "col_pos k_clause_text result_columns = 2"
  "col_pos k_error result_columns = 3"
  by (simp_all add: result_columns_def keys_distinct)

lemma df_setitem_list_fresh:
  assumes "set result_columns \<inter> set (columns df) = {}"
  shows "df_setitem_list df result_columns v =
         \<lparr>columns = columns df @ result_columns,
          rows = map (\<lambda>r. r @ [v, v, v, v]) (rows df)\<rparr>"
proof -
  from assms have n: "k_summary \<notin> set (columns df)" "k_clause_id \<notin> set (columns df)"
    "k_clause_text \<notin> set (columns df)" "k_error \<notin> set (columns df)"
    by (auto simp: result_columns_def)
  show ?thesis
    by (simp add: result_columns_def df_setitem_def n keys_distinct comp_def)
qed

lemma outcome_form:
  assumes "map fst outcome = result_columns"
  shows "\<exists>a b c d. outcome = [(k_summary, a), (k_clause_id, b), (k_clause_text, c), (k_error, d)]"
  using assms by (auto simp: result_columns_def map_eq_Cons_conv)

lemma tail_update:
  "(r @ xs)[length r + j := v] = r @ xs[j := v]"
  "(r @ xs)[length r := v] = r @ xs[0 := v]"
  "(r @ xs)[Suc (length r) := v] = r @ xs[1 := v]"
  "(r @ xs)[Suc (Suc (length r)) := v] = r @ xs[2 := v]"
  "(r @ xs)[Suc (Suc (Suc (length r))) := v] = r @ xs[3 := v]"
  by (simp_all add: list_update_append numeral_2_eq_2 numeral_3_eq_3)

lemma df_at_set_cell:
  assumes "columns F = cols @ result_columns" and "k \<in> set result_columns" and "k \<notin> set cols"
    and "idx < length (rows F)"
  shows "df_at_set environ F idx k v =
         (case str_dtype_value environ v of
            Inl e \<Rightarrow> Inl e
          | Inr w \<Rightarrow>
              Inr (F\<lparr>rows := (rows F)[idx := (rows F ! idx)
                                   [length cols + col_pos k result_columns := w]]\<rparr>))"
  using assms by (simp add: df_at_set_def col_pos_append split: sum.splits)

lemma update_result_row:
  assumes cols: "columns F = cols @ result_columns"
    and fresh: "set result_columns \<inter> set cols = {}"
    and idx: "idx < length (rows F)"
    and row: "rows F ! idx = r @ [e1, e2, e3, e4]"
    and len: "length r = length cols"
    and o: "outcome = [(k_summary, a), (k_clause_id, b), (k_clause_text, c), (k_error, d)]"
  shows "update_result environ F idx outcome result_columns =
         (case stored_cells environ outcome of
            Inl e \<Rightarrow> Inl e
          | Inr cells \<Rightarrow> Inr (F\<lparr>rows := (rows F)[idx := r @ cells]\<rparr>))"
proof -
  from fresh have n: "k_summary \<notin> set cols" "k_clause_id \<notin> set cols"
    "k_clause_text \<notin> set cols" "k_error \<notin> set cols"
    by (auto simp: result_columns_def)
  have m: "k_summary \<in> set result_columns" "k_clause_id \<in> set result_columns"
    "k_clause_text \<in> set result_columns" "k_error \<in> set result_columns"
    by (simp_all add: result_columns_def)
  have g: "dict_getitem outcome k_summary = Inr a" "dict_getitem outcome k_clause_id = Inr b"
    "dict_getitem outcome k_clause_text = Inr c" "dict_getitem outcome k_error = Inr d"
    by (simp_all add: o dict_getitem_def keys_distinct)
  have u: "update_result environ F idx outcome result_columns =
           (case df_at_set environ F idx k_summary a of Inl e \<Rightarrow> Inl e
            | Inr F1 \<Rightarrow>
           (case df_at_set environ F1 idx k_clause_id b of Inl e \<Rightarrow> Inl e
            | Inr F2 \<Rightarrow>
           (case df_at_set environ F2 idx k_clause_text c of Inl e \<Rightarrow> Inl e
            | Inr F3 \<Rightarrow>
           (case df_at_set environ F3 idx k_error d of Inl e \<Rightarrow> Inl e
            | Inr F4 \<Rightarrow> Inr F4))))"
    by (simp add: result_columns_def g split: sum.splits)
  show ?thesis
  proof (cases "str_dtype_value environ a")
    case (Inl e)
    then show ?thesis
      unfolding u using df_at_set_cell [OF cols m(1) n(1) idx, of environ a]
      by (simp add: stored_cells_def o)
  next
    case a': (Inr a')
    define F1 where "F1 = F\<lparr>rows := (rows F)[idx := r @ [a', e2, e3, e4]]\<rparr>"
    have 1: "df_at_set environ F idx k_summary a = Inr F1"
      using df_at_set_cell [OF cols m(1) n(1) idx, of environ a]
      by (simp add: a' F1_def row result_columns_pos len [symmetric] tail_update)
    have c1: "columns F1 = cols @ result_columns" "idx < length (rows F1)"
      "rows F1 ! idx = r @ [a', e2, e3, e4]"
      using cols idx by (simp_all add: F1_def)
    show ?thesis
    proof (cases "str_dtype_value environ b")
      case (Inl e)
      then show ?thesis
        unfolding u using df_at_set_cell [OF c1(1) m(2) n(2) c1(2), of environ b]
        by (simp add: stored_cells_def o a' 1)
    next
      case b': (Inr b')
      define F2 where "F2 = F\<lparr>rows := (rows F)[idx := r @ [a', b', e3, e4]]\<rparr>"
      have 2: "df_at_set environ F1 idx k_clause_id b = Inr F2"
        using df_at_set_cell [OF c1(1) m(2) n(2) c1(2), of environ b]
        by (simp add: b' c1(3) result_columns_pos len [symmetric] tail_update)
           (simp add: F1_def F2_def)
      have c2: "columns F2 = cols @ result_columns" "idx < length (rows F2)"
        "rows F2 ! idx = r @ [a', b', e3, e4]"
        using cols idx by (simp_all add: F2_def)
      show ?thesis
      proof (cases "str_dtype_value environ c")
        case (Inl e)
        then show ?thesis
          unfolding u using df_at_set_cell [OF c2(1) m(3) n(3) c2(2), of environ c]
          by (simp add: stored_cells_def o a' b' 1 2)
      next
        case c': (Inr c')
        define F3 where "F3 = F\<lparr>rows := (rows F)[idx := r @ [a', b', c', e4]]\<rparr>"
        have 3: "df_at_set environ F2 idx k_clause_text c = Inr F3"
          using df_at_set_cell [OF c2(1) m(3) n(3) c2(2), of environ c]
          by (simp add: c' c2(3) result_columns_pos len [symmetric] tail_update)
             (simp add: F2_def F3_def)
        have c3: "columns F3 = cols @ result_columns" "idx < length (rows F3)"
          "rows F3 ! idx = r @ [a', b', c', e4]"
          using cols idx by (simp_all add: F3_def)
        show ?thesis
        proof (cases "str_dtype_value environ d")
          case (Inl e)
          then show ?thesis
            unfolding u using df_at_set_cell [OF c3(1) m(4) n(4) c3(2), of environ d]
            by (simp add: stored_cells_def o a' b' c' 1 2 3)
        next
          case d': (Inr d')
          define F4 where "F4 = F\<lparr>rows := (rows F)[idx := r @ [a', b', c', d']]\<rparr>"
          have 4: "df_at_set environ F3 idx k_error d = Inr F4"
            using df_at_set_cell [OF c3(1) m(4) n(4) c3(2), of environ d]
            by (simp add: d' c3(3) result_columns_pos len [symmetric] tail_update)
               (simp add: F3_def F4_def)
          show ?thesis
            unfolding u by (simp add: stored_cells_def o a' b' c' d' 1 2 3 4 F4_def)
        qed
      qed
    qed
  qed
qed

lemma row_getitem_zip:
  assumes "k \<in> set cols" and "length r = length cols"
  shows "\<exists>v. dict_getitem (zip cols r) k = Inr v"
proof -
  from assms have "map_of (zip cols r) k \<noteq> None"
    by (simp add: map_of_zip_is_None)
  then show ?thesis by (auto simp: dict_getitem_def)
qed

lemma main_row_loop_inv:
  assumes cols: "columns F = cols @ result_columns"
    and fresh: "set result_columns \<inter> set cols = {}"
    and content: "k_content \<in> set cols"
    and rowsF: "rows F = pre @ map (\<lambda>r. r @ [e, e, e, e]) cells"
    and i: "length pre = i"
    and wf: "\<forall>r \<in> set cells. length r = length cols"
  shows "main_row_loop environ file_content api_url api_auth
           (zip [i..<i + length cells] (map (zip cols) cells)) F sent =
         (case write_rows environ file_content api_url api_auth (map (zip cols) cells) sent of
            (Inl err, sent') \<Rightarrow> (Inl err, sent')
          | (Inr stored, sent') \<Rightarrow>
              (Inr (F\<lparr>rows := pre @ map2 (@) cells stored\<rparr>), sent'))"
  using cols rowsF i wf
proof (induction cells arbitrary: F pre i sent)
  case Nil
  then show ?case by simp
next
  case (Cons r cells)
  let ?row = "zip cols r"
  from Cons.prems have len: "length r = length cols" by simp
  obtain v where v: "dict_getitem ?row k_content = Inr v"
    using row_getitem_zip [OF content len] by blast
  obtain outcome sent' where p:
    "process_excel_row environ ?row file_content api_url api_auth sent = (outcome, sent')"
    by (cases "process_excel_row environ ?row file_content api_url api_auth sent")
  have "map fst outcome = result_columns"
    using outcome_keys [of environ ?row file_content api_url api_auth sent] p by simp
  then obtain a b c d where o:
    "outcome = [(k_summary, a), (k_clause_id, b), (k_clause_text, c), (k_error, d)]"
    using outcome_form by blast
  have idx: "i < length (rows F)" using Cons.prems by simp
  have nth: "rows F ! i = r @ [e, e, e, e]"
    using Cons.prems by (simp add: nth_append)
  note u = update_result_row [OF Cons.prems(1) fresh idx nth len o, of environ]
  have up: "[i..<i + length (r # cells)] = i # [Suc i..<Suc i + length cells]"
  proof -
    have "[i..<Suc i + length cells] = i # [Suc i..<Suc i + length cells]"
      by (rule upt_conv_Cons) simp
    moreover have "i + length (r # cells) = Suc i + length cells" by simp
    ultimately show ?thesis by (simp only:)
  qed
  show ?case
  proof (cases "stored_cells environ outcome")
    case (Inl err)
    show ?thesis
      unfolding up using v p u Inl by simp
  next
    case (Inr cs)
    define F' where "F' = F\<lparr>rows := (rows F)[i := r @ cs]\<rparr>"
    have u': "update_result environ F i outcome result_columns = Inr F'"
      using u Inr by (simp add: F'_def)
    have c': "columns F' = cols @ result_columns" using Cons.prems by (simp add: F'_def)
    have r': "rows F' = (pre @ [r @ cs]) @ map (\<lambda>r. r @ [e, e, e, e]) cells"
      using Cons.prems by (simp add: F'_def list_update_append)
    have i': "length (pre @ [r @ cs]) = Suc i" using Cons.prems by simp
    have wf': "\<forall>r \<in> set cells. length r = length cols" using Cons.prems by simp
    note IH = Cons.IH [OF c' r' i' wf', of sent']
    obtain res sent'' where q:
      "write_rows environ file_content api_url api_auth (map (zip cols) cells) sent'
         = (res, sent'')"
      by (cases "write_rows environ file_content api_url api_auth (map (zip cols) cells) sent'")
    show ?thesis
      unfolding up
      using v p u' IH q Inr by (cases res) (simp_all add: F'_def)
  qed
qed

lemma main_process_excel_fresh:
  assumes wf: "\<forall>r \<in> set (rows df). length r = length (columns df)"
    and fresh: "set result_columns \<inter> set (columns df) = {}"
    and content: "k_content \<in> set (columns df)"
  shows "main_process_excel environ (Inr df) file_content api_url api_auth sent =
         (case write_rows environ file_content api_url api_auth
                 (map (zip (columns df)) (rows df)) sent of
            (Inl err, sent') \<Rightarrow> (Inl err, sent')
          | (Inr stored, sent') \<Rightarrow>
              (Inr \<lparr>columns = columns df @ result_columns,
                    rows = map2 (@) (rows df) stored\<rparr>, sent'))"
proof -
  let ?F = "\<lparr>columns = columns df @ result_columns,
              rows = map (\<lambda>r. r @ [PStr [], PStr [], PStr [], PStr []]) (rows df)\<rparr>"
  have c: "columns ?F = columns df @ result_columns" by simp
  have r: "rows ?F = [] @ map (\<lambda>r. r @ [PStr [], PStr [], PStr [], PStr []]) (rows df)" by simp
  have l: "length ([] :: pyval list list) = 0" by simp
  obtain res sent' where q:
    "write_rows environ file_content api_url api_auth (map (zip (columns df)) (rows df)) sent
       = (res, sent')"
    by (cases "write_rows environ file_content api_url api_auth
                 (map (zip (columns df)) (rows df)) sent")
  from main_row_loop_inv [OF c fresh content r l wf, of environ file_content api_url api_auth sent]
  show ?thesis
    using q
    by (cases res) (simp_all add: main_process_excel_def iterrows_def df_setitem_list_fresh [OF fresh])
qed

lemma main_process_excel_missing_content:
  assumes "k_content \<notin> set (columns df)" and "rows df \<noteq> []"
  shows "main_process_excel environ (Inr df) file_content api_url api_auth sent =
         (Inl (KeyError k_content), sent)"
proof -
  from assms(2) obtain r rs where rs: "rows df = r # rs" by (cases "rows df") auto
  have up: "[0..<Suc (length rs)] = 0 # [Suc 0..<Suc (length rs)]"
    by (rule upt_conv_Cons) simp
  have "map_of (zip (columns df) r) k_content = None"
    using assms(1) by (metis map_of_eq_None_iff set_zip_leftD imageE prod.collapse)
  then have g: "dict_getitem (zip (columns df) r) k_content = Inl (KeyError k_content)"
    by (simp add: dict_getitem_def)
  have z: "iterrows df =
             (0, zip (columns df) r) # zip [Suc 0..<Suc (length rs)] (map (zip (columns df)) rs)"
    by (simp add: iterrows_def rs up del: upt_Suc)
  show ?thesis
    by (simp add: main_process_excel_def z g)
qed

lemma stored_cells_Cons:
  "stored_cells environ ((k, v) # outcome) =
     (case str_dtype_value environ v of
        Inl e \<Rightarrow> Inl e
      | Inr w \<Rightarrow> (case stored_cells environ outcome of Inl e \<Rightarrow> Inl e | Inr ws \<Rightarrow> Inr (w # ws)))"
  by (cases "str_dtype_value environ v") (simp_all add: stored_cells_def)

lemma stored_cells_Nil: "stored_cells environ [] = Inr []"
  by (simp add: stored_cells_def)

lemma stored_cells_nth:
  "stored_cells environ outcome = Inr cells \<Longrightarrow>
   length cells = length outcome \<and>
   (\<forall>j < length outcome. str_dtype_value environ (snd (outcome ! j)) = Inr (cells ! j))"
proof (induction outcome arbitrary: cells)
  case Nil
  then show ?case by (simp add: stored_cells_Nil)
next
  case (Cons kv outcome)
  obtain k v where kv: "kv = (k, v)" by (cases kv)
  from Cons.prems obtain w ws where w: "str_dtype_value environ v = Inr w"
    and ws: "stored_cells environ outcome = Inr ws" and c: "cells = w # ws"
    unfolding kv stored_cells_Cons by (auto split: sum.splits)
  from Cons.IH [OF ws] have l: "length ws = length outcome"
    and n: "\<forall>j < length outcome. str_dtype_value environ (snd (outcome ! j)) = Inr (ws ! j)"
    by simp_all
  have "str_dtype_value environ (snd ((kv # outcome) ! j)) = Inr (cells ! j)"
    if "j < length (kv # outcome)" for j
    using that n w by (cases j) (simp_all add: kv c)
  with l show ?case by (simp add: c)
qed

lemma str_dtype_value_storable:
  "is_str v \<or> v = PNone \<Longrightarrow> str_dtype_value environ v = Inr (if v = PNone then nan else v)"
  by (cases v) (auto simp: is_str_def)

lemma stored_cells_storable:
  "\<forall>kv \<in> set outcome. is_str (snd kv) \<or> snd kv = PNone \<Longrightarrow>
   stored_cells environ outcome = Inr (map (\<lambda>kv. if snd kv = PNone then nan else snd kv) outcome)"
proof (induction outcome)
  case Nil
  show ?case by (simp add: stored_cells_Nil)
next
  case (Cons kv outcome)
  obtain k v where kv: "kv = (k, v)" by (cases kv)
  from Cons.prems have v: "is_str v \<or> v = PNone" by (simp add: kv)
  from Cons have "stored_cells environ outcome =
                  Inr (map (\<lambda>kv. if snd kv = PNone then nan else snd kv) outcome)" by simp
  then show ?case
    unfolding kv stored_cells_Cons by (simp add: str_dtype_value_storable [OF v])
qed

lemma write_rows_stored:
  "write_rows environ file_content api_url api_auth rws sent = (Inr stored, sent') \<Longrightarrow>
   sent' = snd (process_rows environ file_content api_url api_auth rws sent) \<and>
   list_all2 (\<lambda>outcome cells. stored_cells environ outcome = Inr cells)
     (fst (process_rows environ file_content api_url api_auth rws sent)) stored"
proof (induction rws arbitrary: sent stored sent')
  case Nil
  then show ?case by auto
next
  case (Cons row rest)
  obtain outcome s1 where p:
    "process_excel_row environ row file_content api_url api_auth sent = (outcome, s1)"
    by (cases "process_excel_row environ row file_content api_url api_auth sent")
  obtain outcomes s2 where q:
    "process_rows environ file_content api_url api_auth rest s1 = (outcomes, s2)"
    by (cases "process_rows environ file_content api_url api_auth rest s1")
  from Cons.prems p obtain cells where c: "stored_cells environ outcome = Inr cells"
    by (cases "stored_cells environ outcome") auto
  obtain res s3 where w: "write_rows environ file_content api_url api_auth rest s1 = (res, s3)"
    by (cases "write_rows environ file_content api_url api_auth rest s1")
  from Cons.prems p c w obtain others where r: "res = Inr others"
    and st: "stored = cells # others" and s: "sent' = s3"
    by (cases res) auto
  from Cons.IH [OF w [unfolded r]] q have "s3 = s2"
    and "list_all2 (\<lambda>outcome cells. stored_cells environ outcome = Inr cells) outcomes others"
    by simp_all
  with p q c st s show ?case by simp
qed

lemma write_rows_total:
  "\<forall>outcome \<in> set (fst (process_rows environ file_content api_url api_auth rws sent)).
      \<exists>cells. stored_cells environ outcome = Inr cells \<Longrightarrow>
   \<exists>stored. write_rows environ file_content api_url api_auth rws sent =
              (Inr stored, snd (process_rows environ file_content api_url api_auth rws sent))"
proof (induction rws arbitrary: sent)
  case Nil
  then show ?case by simp
next
  case (Cons row rest)
  obtain outcome s1 where p:
    "process_excel_row environ row file_content api_url api_auth sent = (outcome, s1)"
    by (cases "process_excel_row environ row file_content api_url api_auth sent")
  obtain outcomes s2 where q:
    "process_rows environ file_content api_url api_auth rest s1 = (outcomes, s2)"
    by (cases "process_rows environ file_content api_url api_auth rest s1")
  from Cons.prems p q obtain cells where c: "stored_cells environ outcome = Inr cells"
    by auto
  from Cons.prems p q
  have "\<forall>outcome \<in> set (fst (process_rows environ file_content api_url api_auth rest s1)).
          \<exists>cells. stored_cells environ outcome = Inr cells" by simp
  from Cons.IH [OF this] q obtain others where
    "write_rows environ file_content api_url api_auth rest s1 = (Inr others, s2)" by auto
  with p q c show ?case by simp
qed

lemma process_rows_keys:
  "\<forall>outcome \<in> set (fst (process_rows environ file_content api_url api_auth rws sent)).
     map fst outcome = result_columns"
proof (induction rws arbitrary: sent)
  case Nil
  then show ?case by simp
next
  case (Cons row rest)
  obtain outcome sent' where p:
    "process_excel_row environ row file_content api_url api_auth sent = (outcome, sent')"
    by (cases "process_excel_row environ row file_content api_url api_auth sent")
  obtain outcomes sent'' where q:
    "process_rows environ file_content api_url api_auth rest sent' = (outcomes, sent'')"
    by (cases "process_rows environ file_content api_url api_auth rest sent'")
  have "map fst outcome = result_columns"
    using outcome_keys [of environ row file_content api_url api_auth sent] p by simp
  moreover from Cons.IH [of sent'] q
  have "\<forall>outcome \<in> set outcomes. map fst outcome = result_columns" by simp
  ultimately show ?case using p q by simp
qed

lemma length_outcome: "map fst outcome = result_columns \<Longrightarrow> length outcome = 4"
  by (drule arg_cong [where f = length]) (simp add: result_columns_def)

lemma main_process_excel_result:
  assumes wf: "\<forall>r \<in> set (rows df). length r = length (columns df)"
    and fresh: "set result_columns \<inter> set (columns df) = {}"
    and out: "fst (main_process_excel environ (Inr df) file_content api_url api_auth sent) = Inr out"
  shows "\<exists>stored. out = \<lparr>columns = columns df @ result_columns,
                          rows = map2 (@) (rows df) stored\<rparr> \<and>
           list_all2 (\<lambda>outcome cells. stored_cells environ outcome = Inr cells)
             (fst (process_rows environ file_content api_url api_auth
                     (map (zip (columns df)) (rows df)) sent)) stored"
proof (cases "k_content \<in> set (columns df)")
  case True
  obtain res sent' where w:
    "write_rows environ file_content api_url api_auth (map (zip (columns df)) (rows df)) sent
       = (res, sent')"
    by (cases "write_rows environ file_content api_url api_auth
                 (map (zip (columns df)) (rows df)) sent")
  from main_process_excel_fresh [OF wf fresh True, of environ file_content api_url api_auth sent]
    out w obtain stored where r: "res = Inr stored"
    and o: "out = \<lparr>columns = columns df @ result_columns, rows = map2 (@) (rows df) stored\<rparr>"
    by (cases res) auto
  from write_rows_stored [OF w [unfolded r]] o show ?thesis by blast
next
  case False
  show ?thesis
  proof (cases "rows df = []")
    case True
    then show ?thesis
      using out by (simp add: main_process_excel_def iterrows_def df_setitem_list_fresh [OF fresh])
  next
    case nonempty: False
    from main_process_excel_missing_content [OF False nonempty, of environ file_content api_url
        api_auth sent] out
    show ?thesis by simp
  qed
qed

lemma service_answering_row:
  assumes "build_query row = Inr q"
    and "fence_search answer = Some block"
    and "loads (py_strip block) = Inr (PDict kvs)"
  shows "process_excel_row (service_answering (PStr answer) loads) row file_content api_url
           api_auth sent =
         (success_outcome kvs,
          sent @ [\<lparr>req_url = api_url, req_json = build_payload q file_content,
                    req_headers = build_headers api_auth, req_timeout = 600\<rparr>])"
proof -
  have l: "json_loads (service_answering (PStr answer) loads) (py_strip block) = Inr (PDict kvs)"
    using assms(3) by (simp add: service_answering_def)
  show ?thesis
    by (rule process_excel_row_dict
        [OF assms(1) service_answering_call service_answering_answer assms(2) l])
qed

lemma empty_object_search: "fence_search (ascii ''```json{}```'') = Some (ascii ''{}'')"
  by (simp add: fence_search_def fence_open_def fence_close_def ascii_def)

lemma empty_object_loads:
  "loads_table [(ascii ''{}'', PDict [])] (py_strip (ascii ''{}'')) = Inr (PDict [])"
  by (simp add: loads_table_def py_strip_def ascii_def is_space_def)

lemma null_object_search:
  "fence_search (fence_open @ example_null_text @ fence_close) = Some example_null_text"
  by (simp add: fence_search_def fence_open_def fence_close_def ascii_def example_null_text_def)

lemma null_object_loads:
  "loads_table [(example_null_text, PDict [(k_summary, PNone)])] (py_strip example_null_text)
     = Inr (PDict [(k_summary, PNone)])"
  by (simp add: loads_table_def py_strip_def is_space_def example_null_text_def)

lemma number_object_search:
  "fence_search (fence_open @ example_number_text @ fence_close) = Some example_number_text"
  by (simp add: fence_search_def fence_open_def fence_close_def ascii_def example_number_text_def)

lemma number_object_loads:
  "loads_table [(example_number_text, PDict [(k_clause_id, PInt 3)])] (py_strip example_number_text)
     = Inr (PDict [(k_clause_id, PInt 3)])"
  by (simp add: loads_table_def py_strip_def is_space_def example_number_text_def)

lemma column_names_distinct:
  "k_category \<noteq> k_content" "k_category \<noteq> k_instructions" "k_content \<noteq> k_instructions"
  "k_content \<noteq> k_category" "k_instructions \<noteq> k_category" "k_instructions \<noteq> k_content"
  "k_category \<notin> set result_columns" "k_content \<notin> set result_columns"
  "k_instructions \<notin> set result_columns"
  by (simp_all add: k_category_def k_content_def k_instructions_def result_columns_def
      k_summary_def k_clause_id_def k_clause_text_def k_error_def ascii_def)

lemma example_table_wf:
  "\<forall>r \<in> set (rows example_table). length r = length (columns example_table)"
  by (simp add: example_table_def)

lemma example_table_fresh: "set result_columns \<inter> set (columns example_table) = {}"
  using column_names_distinct(7-9) by (simp add: example_table_def)

lemma example_table_content: "k_content \<in> set (columns example_table)"
  by (simp add: example_table_def)

lemma example_table_queries:
  "build_query (zip (columns example_table) [PStr [65], PStr [66], PStr [67]])
     = Inr (query_text [65] [66] [67])"
  "build_query (zip (columns example_table) [PStr [68], PStr [69], PStr [70]])
     = Inr (query_text [68] [69] [70])"
  by (rule build_query_strings,
      simp_all add: example_table_def dict_getitem_def column_names_distinct)+

lemma show_int_3: "show_int 3 = [51]"
  by (simp add: show_int_def)

lemma number_example_refused:
  "fst (main_process_excel
          (service_answering (PStr (fence_open @ example_number_text @ fence_close))
             (loads_table [(example_number_text, PDict [(k_clause_id, PInt 3)])]))
          (Inr example_table) [] [] [] []) =
     Inl (TypeError (ascii ''Invalid value '' @ [39] @ ascii ''3'' @ [39] @ ascii '' for dtype ''
                     @ [39] @ ascii ''str'' @ [39]
                     @ ascii ''. Value should be a string or missing value, got ''
                     @ [39] @ ascii ''int'' @ [39] @ ascii '' instead.''))"
proof -
  let ?env = "service_answering (PStr (fence_open @ example_number_text @ fence_close))
                (loads_table [(example_number_text, PDict [(k_clause_id, PInt 3)])])"
  note p = service_answering_row
      [where loads = "loads_table [(example_number_text, PDict [(k_clause_id, PInt 3)])]",
       OF example_table_queries(1) number_object_search number_object_loads]
  have s: "stored_cells ?env (success_outcome [(k_clause_id, PInt 3)]) =
           Inl (invalid_value [51] (ascii ''int''))"
    by (simp add: success_outcome_def stored_cells_Cons keys_distinct show_int_3)
  have "fst (write_rows ?env [] [] [] (map (zip (columns example_table)) (rows example_table)) [])
        = Inl (invalid_value [51] (ascii ''int''))"
    using p s by (simp add: example_table_def)
  then have "fst (main_process_excel ?env (Inr example_table) [] [] [] []) =
             Inl (invalid_value [51] (ascii ''int''))"
    using main_process_excel_fresh
      [OF example_table_wf example_table_fresh example_table_content, of ?env "[]" "[]" "[]" "[]"]
    by (simp split: prod.splits sum.splits)
  then show ?thesis by (simp add: invalid_value_def ascii_def)
qed

text \<open>
  Claim C2 as the specification states it fails for a table that already has a column
  named \<open>error\<close>: the column is overwritten where it stands and only three columns are
  added after the last one. And there are tables for which no output table is produced:
  when the object of an answer holds a number under one of the keys, the write of that
  number to the column of strings raises \<open>TypeError\<close> and ends the document; when the
  table has no clause/content column, the log line of the loop raises \<open>KeyError\<close>.
\<close>

theorem C2_existing_column_counterexample:
  "fst (main_process_excel
          (service_answering (PStr (ascii ''```json{}```'')) (loads_table [(ascii ''{}'', PDict [])]))
          (Inr example_table_with_error) [] [] [] []) =
     Inr \<lparr>columns = [k_category, k_content, k_instructions, k_error,
                      k_summary, k_clause_id, k_clause_text],
           rows = [[PStr [65], PStr [66], PStr [67], PStr [],
                    PStr not_extracted, PStr not_extracted, PStr not_extracted]]\<rparr> \<and>
   [k_category, k_content, k_instructions, k_error, k_summary, k_clause_id, k_clause_text] \<noteq>
     columns example_table_with_error @ [k_summary, k_clause_id, k_clause_text, k_error] \<and>
   fst (main_process_excel
          (service_answering (PStr (fence_open @ example_number_text @ fence_close))
             (loads_table [(example_number_text, PDict [(k_clause_id, PInt 3)])]))
          (Inr example_table) [] [] [] []) =
     Inl (TypeError (ascii ''Invalid value '' @ [39] @ ascii ''3'' @ [39] @ ascii '' for dtype ''
                     @ [39] @ ascii ''str'' @ [39]
                     @ ascii ''. Value should be a string or missing value, got ''
                     @ [39] @ ascii ''int'' @ [39] @ ascii '' instead.'')) \<and>
   fst (main_process_excel
          (service_answering (PStr (ascii ''```json{}```'')) (loads_table [(ascii ''{}'', PDict [])]))
          (Inr example_table_without_content) [] [] [] []) = Inl (KeyError k_content)"
proof -
  let ?row = "zip [k_category, k_content, k_instructions, k_error]
                  [PStr [65], PStr [66], PStr [67], PStr [68]]"
  have q: "build_query ?row = Inr (query_text [65] [66] [67])"
    by (rule build_query_strings) (simp_all add: dict_getitem_def column_names_distinct)
  note p = service_answering_row [where loads = "loads_table [(ascii ''{}'', PDict [])]",
      OF q empty_object_search empty_object_loads]
  have g: "dict_getitem ?row k_content = Inr (PStr [66])"
    by (simp add: dict_getitem_def column_names_distinct)
  have a: "fst (main_process_excel
          (service_answering (PStr (ascii ''```json{}```'')) (loads_table [(ascii ''{}'', PDict [])]))
          (Inr example_table_with_error) [] [] [] []) =
     Inr \<lparr>columns = [k_category, k_content, k_instructions, k_error,
                      k_summary, k_clause_id, k_clause_text],
           rows = [[PStr [65], PStr [66], PStr [67], PStr [],
                    PStr not_extracted, PStr not_extracted, PStr not_extracted]]\<rparr>"
    using g p
    by (simp add: main_process_excel_def example_table_with_error_def iterrows_def
        result_columns_def df_setitem_def df_at_set_def dict_getitem_def success_outcome_def
        k_category_def k_content_def k_instructions_def k_summary_def k_clause_id_def
        k_clause_text_def k_error_def ascii_def)
  have "k_error \<noteq> k_summary" by (simp add: keys_distinct)
  then have b: "[k_category, k_content, k_instructions, k_error, k_summary, k_clause_id,
                 k_clause_text] \<noteq>
     columns example_table_with_error @ [k_summary, k_clause_id, k_clause_text, k_error]"
    by (simp add: example_table_with_error_def)
  have "main_process_excel
          (service_answering (PStr (ascii ''```json{}```'')) (loads_table [(ascii ''{}'', PDict [])]))
          (Inr example_table_without_content) [] [] [] [] = (Inl (KeyError k_content), [])"
    by (rule main_process_excel_missing_content)
       (simp_all add: example_table_without_content_def column_names_distinct)
  then have d: "fst (main_process_excel
          (service_answering (PStr (ascii ''```json{}```'')) (loads_table [(ascii ''{}'', PDict [])]))
          (Inr example_table_without_content) [] [] [] []) = Inl (KeyError k_content)"
    by simp
  from a b number_example_refused d show ?thesis by blast
qed

text \<open>
  Claim C2, as the code has it. For a table none of whose columns bears one of the four
  result names, every table handed to \<open>to_excel\<close> has the columns of the input, in their
  order, followed by summary, clause id, clause text and error, and as many rows as the
  input, in its order: row \<open>i\<close> is row \<open>i\<close> of the input followed by four cells, which
  hold the four values of the outcome of that row as the columns of strings store them.
  Such a table is produced whenever the input has the clause/content column (the one
  the loop logs) and every value of every outcome is a string or \<open>None\<close>.
\<close>

theorem C2_output_table:
  assumes wf: "\<forall>r \<in> set (rows df). length r = length (columns df)"
    and fresh: "set [k_summary, k_clause_id, k_clause_text, k_error] \<inter> set (columns df) = {}"
  shows "(k_content \<in> set (columns df) \<and>
          (\<forall>outcome \<in> set (fst (process_rows environ file_content api_url api_auth
                                    (map (zip (columns df)) (rows df)) sent)).
             \<forall>kv \<in> set outcome. is_str (snd kv) \<or> snd kv = PNone) \<longrightarrow>
            (\<exists>out. fst (main_process_excel environ (Inr df) file_content api_url api_auth sent)
                     = Inr out)) \<and>
         (\<forall>out. fst (main_process_excel environ (Inr df) file_content api_url api_auth sent)
                  = Inr out \<longrightarrow>
            columns out = columns df @ [k_summary, k_clause_id, k_clause_text, k_error] \<and>
            length (rows out) = length (rows df) \<and>
            (\<forall>i < length (rows df).
               take (length (columns df)) (rows out ! i) = rows df ! i \<and>
               length (rows out ! i) = length (columns df) + 4 \<and>
               (\<forall>j < 4.
                  str_dtype_value environ
                    (snd (fst (process_rows environ file_content api_url api_auth
                                 (map (zip (columns df)) (rows df)) sent) ! i ! j)) =
                  Inr (rows out ! i ! (length (columns df) + j)))))"
proof -
  let ?os = "fst (process_rows environ file_content api_url api_auth
                    (map (zip (columns df)) (rows df)) sent)"
  from fresh have fresh': "set result_columns \<inter> set (columns df) = {}"
    by (simp add: result_columns_def)
  have len: "length ?os = length (rows df)" by (simp add: length_process_rows)
  have A: "k_content \<in> set (columns df) \<and>
          (\<forall>outcome \<in> set ?os. \<forall>kv \<in> set outcome. is_str (snd kv) \<or> snd kv = PNone) \<longrightarrow>
            (\<exists>out. fst (main_process_excel environ (Inr df) file_content api_url api_auth sent)
                     = Inr out)"
  proof
    assume h: "k_content \<in> set (columns df) \<and>
          (\<forall>outcome \<in> set ?os. \<forall>kv \<in> set outcome. is_str (snd kv) \<or> snd kv = PNone)"
    then have "\<forall>outcome \<in> set ?os. \<exists>cells. stored_cells environ outcome = Inr cells"
      using stored_cells_storable by blast
    from write_rows_total [OF this] obtain stored where
      "write_rows environ file_content api_url api_auth (map (zip (columns df)) (rows df)) sent =
         (Inr stored, snd (process_rows environ file_content api_url api_auth
                              (map (zip (columns df)) (rows df)) sent))"
      by blast
    with main_process_excel_fresh [OF wf fresh', of environ file_content api_url api_auth sent] h
    show "\<exists>out. fst (main_process_excel environ (Inr df) file_content api_url api_auth sent)
                = Inr out"
      by simp
  qed
  have B: "columns out = columns df @ [k_summary, k_clause_id, k_clause_text, k_error] \<and>
            length (rows out) = length (rows df) \<and>
            (\<forall>i < length (rows df).
               take (length (columns df)) (rows out ! i) = rows df ! i \<and>
               length (rows out ! i) = length (columns df) + 4 \<and>
               (\<forall>j < 4. str_dtype_value environ (snd (?os ! i ! j)) =
                         Inr (rows out ! i ! (length (columns df) + j))))"
    if out: "fst (main_process_excel environ (Inr df) file_content api_url api_auth sent) = Inr out"
    for out
  proof -
    from main_process_excel_result [OF wf fresh' out] obtain stored where
      eq: "out = \<lparr>columns = columns df @ result_columns, rows = map2 (@) (rows df) stored\<rparr>"
      and st: "list_all2 (\<lambda>outcome cells. stored_cells environ outcome = Inr cells) ?os stored"
      by blast
    from st have ls: "length stored = length (rows df)"
      using len by (simp add: list_all2_lengthD [symmetric])
    have 1: "columns out = columns df @ [k_summary, k_clause_id, k_clause_text, k_error]"
      by (simp add: eq result_columns_def)
    have 2: "length (rows out) = length (rows df)" by (simp add: eq ls)
    have 3: "take (length (columns df)) (rows out ! i) = rows df ! i \<and>
             length (rows out ! i) = length (columns df) + 4 \<and>
             (\<forall>j < 4. str_dtype_value environ (snd (?os ! i ! j)) =
                       Inr (rows out ! i ! (length (columns df) + j)))"
      if i: "i < length (rows df)" for i
    proof -
      from i have row: "rows out ! i = rows df ! i @ stored ! i"
        by (simp add: eq ls)
      from i wf have l: "length (rows df ! i) = length (columns df)" by simp
      from i len have "?os ! i \<in> set ?os" by simp
      with process_rows_keys [of environ file_content api_url api_auth
          "map (zip (columns df)) (rows df)" sent]
      have l4: "length (?os ! i) = 4" by (simp add: length_outcome)
      from i len have "i < length ?os" by simp
      from list_all2_nthD [OF st this]
      have "stored_cells environ (?os ! i) = Inr (stored ! i)" .
      from stored_cells_nth [OF this] l4
      have ls4: "length (stored ! i) = 4"
        and c: "\<forall>j < 4. str_dtype_value environ (snd (?os ! i ! j)) = Inr (stored ! i ! j)"
        by simp_all
      from c have "\<forall>j < 4. str_dtype_value environ (snd (?os ! i ! j)) =
                     Inr (rows out ! i ! (length (columns df) + j))"
        by (simp add: row nth_append l)
      then show ?thesis by (simp add: row l ls4)
    qed
    from 1 2 3 show ?thesis by blast
  qed
  from A B show ?thesis by blast
qed

lemma list_of_four:
  assumes "length ys = 4"
  shows "ys = [ys ! 0, ys ! 1, ys ! 2, ys ! 3]"
proof -
  from assms obtain a b c d where "ys = [a, b, c, d]"
    by (auto simp: numeral_eq_Suc length_Suc_conv)
  then show ?thesis by (simp add: numeral_2_eq_2 numeral_3_eq_3)
qed

lemma row_of_cells:
  assumes "take n r = r0" and "length r = n + 4"
    and "\<forall>j < 4. f (c ! j) = Inr (r ! (n + j))" and "length c = 4"
    and "\<forall>j < 4. f (c ! j) = Inr (w ! j)"
  shows "r = r0 @ [w ! 0, w ! 1, w ! 2, w ! 3]"
proof -
  have d: "length (drop n r) = 4" using assms(2) by simp
  have "drop n r ! j = w ! j" if "j < 4" for j
  proof -
    from assms(3) that have "f (c ! j) = Inr (r ! (n + j))" by blast
    moreover from assms(5) that have "f (c ! j) = Inr (w ! j)" by blast
    ultimately have "r ! (n + j) = w ! j" by simp
    then show ?thesis using that assms(2) by simp
  qed
  then have "drop n r = [w ! 0, w ! 1, w ! 2, w ! 3]"
    using list_of_four [OF d] by simp
  with assms(1) show ?thesis by (metis append_take_drop_id)
qed

theorem C2_output_table_witness:
  "\<exists>out. fst (main_process_excel
              (service_answering (PStr (fence_open @ example_null_text @ fence_close))
                 (loads_table [(example_null_text, PDict [(k_summary, PNone)])]))
              (Inr example_table) [] [] [] []) = Inr out \<and>
         columns out = [k_category, k_content, k_instructions,
                        k_summary, k_clause_id, k_clause_text, k_error] \<and>
         length (rows out) = 2 \<and>
         rows out ! 0 = [PStr [65], PStr [66], PStr [67],
                         nan, PStr not_extracted, PStr not_extracted, PStr []] \<and>
         rows out ! 1 = [PStr [68], PStr [69], PStr [70],
                         nan, PStr not_extracted, PStr not_extracted, PStr []]"
proof -
  let ?env = "service_answering (PStr (fence_open @ example_null_text @ fence_close))
                (loads_table [(example_null_text, PDict [(k_summary, PNone)])])"
  let ?o = "[(k_summary, PNone), (k_clause_id, PStr not_extracted),
             (k_clause_text, PStr not_extracted), (k_error, PStr [])]"
  note p = service_answering_row
      [where loads = "loads_table [(example_null_text, PDict [(k_summary, PNone)])]",
       OF _ null_object_search null_object_loads]
  have so: "success_outcome [(k_summary, PNone)] = ?o"
    by (simp add: success_outcome_def keys_distinct)
  have os: "fst (process_rows ?env [] [] []
                   (map (zip (columns example_table)) (rows example_table)) [])
            = [?o, ?o]"
    using p [OF example_table_queries(1)] p [OF example_table_queries(2)]
    by (simp add: example_table_def so)
  have fresh: "set [k_summary, k_clause_id, k_clause_text, k_error] \<inter> set (columns example_table) = {}"
    using example_table_fresh by (simp add: result_columns_def)
  note t = C2_output_table [OF example_table_wf fresh, of ?env "[]" "[]" "[]" "[]"]
  have st: "\<forall>outcome \<in> set (fst (process_rows ?env [] [] []
                   (map (zip (columns example_table)) (rows example_table)) [])).
             \<forall>kv \<in> set outcome. is_str (snd kv) \<or> snd kv = PNone"
    unfolding os by (simp add: is_str_def)
  from t example_table_content st obtain out where
    out: "fst (main_process_excel ?env (Inr example_table) [] [] [] []) = Inr out"
    by blast
  from t out have c: "columns out = columns example_table @ [k_summary, k_clause_id, k_clause_text, k_error]"
    and l: "length (rows out) = length (rows example_table)"
    and r: "\<forall>i < length (rows example_table).
               take (length (columns example_table)) (rows out ! i) = rows example_table ! i \<and>
               length (rows out ! i) = length (columns example_table) + 4 \<and>
               (\<forall>j < 4.
                  str_dtype_value ?env
                    (snd (fst (process_rows ?env [] [] []
                                 (map (zip (columns example_table)) (rows example_table)) []) ! i ! j)) =
                  Inr (rows out ! i ! (length (columns example_table) + j)))"
    by blast+
  have w: "\<forall>j < 4. str_dtype_value ?env (snd (?o ! j)) =
             Inr ([nan, PStr not_extracted, PStr not_extracted, PStr []] ! j)"
    by (simp add: numeral_eq_Suc less_Suc_eq)
  have cols3: "length (columns example_table) = 3"
    and i0: "0 < length (rows example_table)" and i1: "1 < length (rows example_table)"
    and v0: "rows example_table ! 0 = [PStr [65], PStr [66], PStr [67]]"
    and v1: "rows example_table ! 1 = [PStr [68], PStr [69], PStr [70]]"
    by (simp_all add: example_table_def)
  from r i0 have "take (length (columns example_table)) (rows out ! 0) = rows example_table ! 0 \<and>
               length (rows out ! 0) = length (columns example_table) + 4 \<and>
               (\<forall>j < 4.
                  str_dtype_value ?env
                    (snd (fst (process_rows ?env [] [] []
                                 (map (zip (columns example_table)) (rows example_table)) []) ! 0 ! j)) =
                  Inr (rows out ! 0 ! (length (columns example_table) + j)))"
    by blast
  then have r0: "take 3 (rows out ! 0) = [PStr [65], PStr [66], PStr [67]]"
    "length (rows out ! 0) = 3 + 4"
    "\<forall>j < 4. str_dtype_value ?env (snd (?o ! j)) = Inr (rows out ! 0 ! (3 + j))"
    unfolding os cols3 v0 by simp_all
  from r i1 have "take (length (columns example_table)) (rows out ! 1) = rows example_table ! 1 \<and>
               length (rows out ! 1) = length (columns example_table) + 4 \<and>
               (\<forall>j < 4.
                  str_dtype_value ?env
                    (snd (fst (process_rows ?env [] [] []
                                 (map (zip (columns example_table)) (rows example_table)) []) ! 1 ! j)) =
                  Inr (rows out ! 1 ! (length (columns example_table) + j)))"
    by blast
  then have r1: "take 3 (rows out ! 1) = [PStr [68], PStr [69], PStr [70]]"
    "length (rows out ! 1) = 3 + 4"
    "\<forall>j < 4. str_dtype_value ?env (snd (?o ! j)) = Inr (rows out ! 1 ! (3 + j))"
    unfolding os cols3 v1 by simp_all
  have l4: "length (map snd ?o) = 4" by simp
  have "rows out ! 0 = [PStr [65], PStr [66], PStr [67]] @
          [[nan, PStr not_extracted, PStr not_extracted, PStr []] ! 0,
           [nan, PStr not_extracted, PStr not_extracted, PStr []] ! 1,
           [nan, PStr not_extracted, PStr not_extracted, PStr []] ! 2,
           [nan, PStr not_extracted, PStr not_extracted, PStr []] ! 3]"
    by (rule row_of_cells [where f = "\<lambda>kv. str_dtype_value ?env (snd kv)" and c = ?o,
          OF r0(1) r0(2) r0(3) _ w]) simp
  then have a: "rows out ! 0 = [PStr [65], PStr [66], PStr [67],
                         nan, PStr not_extracted, PStr not_extracted, PStr []]"
    by (simp add: numeral_2_eq_2 numeral_3_eq_3)
  have "rows out ! 1 = [PStr [68], PStr [69], PStr [70]] @
          [[nan, PStr not_extracted, PStr not_extracted, PStr []] ! 0,
           [nan, PStr not_extracted, PStr not_extracted, PStr []] ! 1,
           [nan, PStr not_extracted, PStr not_extracted, PStr []] ! 2,
           [nan, PStr not_extracted, PStr not_extracted, PStr []] ! 3]"
    by (rule row_of_cells [where f = "\<lambda>kv. str_dtype_value ?env (snd kv)" and c = ?o,
          OF r1(1) r1(2) r1(3) _ w]) simp
  then have b: "rows out ! 1 = [PStr [68], PStr [69], PStr [70],
                         nan, PStr not_extracted, PStr not_extracted, PStr []]"
    by (simp add: numeral_2_eq_2 numeral_3_eq_3)
  from out c l a b show ?thesis
    by (simp add: example_table_def)
qed

section \<open>Failures of a row and the loop over the rows\<close>



lemma build_query_missing:
  "dict_getitem row k_category = Inl e \<Longrightarrow> build_query row = Inl e"
  "dict_getitem row k_category = Inr a \<Longrightarrow> dict_getitem row k_content = Inl e \<Longrightarrow>
     build_query row = Inl e"
  "dict_getitem row k_category = Inr a \<Longrightarrow> dict_getitem row k_content = Inr b \<Longrightarrow>
     dict_getitem row k_instructions = Inl e \<Longrightarrow> build_query row = Inl e"
  by (simp_all add: build_query_def)


















text \<open>
  Claim C4 holds for a table without the category or the fill-in instructions column:
  every row gets the failure record and the table is written. For a table without the
  clause/content column the log line of the loop raises \<open>KeyError\<close> before
  \<open>process_excel_row\<close> is called: no row is processed, no request is sent and no table
  is written, although \<open>process_excel_row\<close> itself would have returned the failure
  record for the row.
\<close>

theorem C4_missing_content_aborts_document:
  "main_process_excel
     (service_answering (PStr (ascii ''```json{}```'')) (loads_table [(ascii ''{}'', PDict [])]))
     (Inr example_table_without_content) [] [] [] [] = (Inl (KeyError k_content), []) \<and>
   process_excel_row
     (service_answering (PStr (ascii ''```json{}```'')) (loads_table [(ascii ''{}'', PDict [])]))
     (zip (columns example_table_without_content) [PStr [65], PStr [67]]) [] [] [] []
     = (failure_outcome (KeyError k_content), []) \<and>
   main_process_excel
     (service_answering (PStr (ascii ''```json{}```'')) (loads_table [(ascii ''{}'', PDict [])]))
     (Inr example_table_without_category) [] [] [] [] =
     (Inr \<lparr>columns = [k_content, k_instructions, k_summary, k_clause_id, k_clause_text, k_error],
            rows = [[PStr [66], PStr [67], PStr processing_failed, PStr processing_failed,
                     PStr processing_failed, PStr ([39] @ k_category @ [39])]]\<rparr>, [])"
proof -
  let ?env = "service_answering (PStr (ascii ''```json{}```''))
                (loads_table [(ascii ''{}'', PDict [])])"
  have a: "main_process_excel ?env (Inr example_table_without_content) [] [] [] []
           = (Inl (KeyError k_content), [])"
    by (rule main_process_excel_missing_content)
       (simp_all add: example_table_without_content_def column_names_distinct)
  have "build_query (zip (columns example_table_without_content) [PStr [65], PStr [67]])
        = Inl (KeyError k_content)"
    by (rule build_query_missing(2) [where a = "PStr [65]"])
       (simp_all add: example_table_without_content_def dict_getitem_def column_names_distinct)
  then have b: "process_excel_row ?env
       (zip (columns example_table_without_content) [PStr [65], PStr [67]]) [] [] [] []
     = (failure_outcome (KeyError k_content), [])"
    by (simp add: process_excel_row_def)
  have "build_query (zip (columns example_table_without_category) [PStr [66], PStr [67]])
        = Inl (KeyError k_category)"
    by (rule build_query_missing(1))
       (simp add: example_table_without_category_def dict_getitem_def column_names_distinct)
  then have p: "process_excel_row ?env
       (zip (columns example_table_without_category) [PStr [66], PStr [67]]) [] [] [] []
     = (failure_outcome (KeyError k_category), [])"
    by (simp add: process_excel_row_def)
  have wf: "\<forall>r \<in> set (rows example_table_without_category).
              length r = length (columns example_table_without_category)"
    by (simp add: example_table_without_category_def)
  have fresh: "set result_columns \<inter> set (columns example_table_without_category) = {}"
    using column_names_distinct(7-9) by (simp add: example_table_without_category_def)
  have content: "k_content \<in> set (columns example_table_without_category)"
    by (simp add: example_table_without_category_def)
  have s: "stored_cells ?env (failure_outcome (KeyError k_category)) =
           Inr [PStr processing_failed, PStr processing_failed, PStr processing_failed,
                PStr ([39] @ k_category @ [39])]"
    by (simp add: failure_outcome_def stored_cells_Cons stored_cells_Nil)
  have w: "write_rows ?env [] [] []
             (map (zip (columns example_table_without_category))
                (rows example_table_without_category)) [] =
           (Inr [[PStr processing_failed, PStr processing_failed, PStr processing_failed,
                  PStr ([39] @ k_category @ [39])]], [])"
    using p s by (simp add: example_table_without_category_def)
  have c: "main_process_excel ?env (Inr example_table_without_category) [] [] [] [] =
     (Inr \<lparr>columns = [k_content, k_instructions, k_summary, k_clause_id, k_clause_text, k_error],
            rows = [[PStr [66], PStr [67], PStr processing_failed, PStr processing_failed,
                     PStr processing_failed, PStr ([39] @ k_category @ [39])]]\<rparr>, [])"
    using main_process_excel_fresh [OF wf fresh content, of ?env "[]" "[]" "[]" "[]"] w
    by (simp add: example_table_without_category_def result_columns_def)
  from a b c show ?thesis by blast
qed

end
